theory Spec2Isabelle
  imports Complex_Main "HOL-Library.Multiset"
begin

section \<open>Python values used by the retrieval engine\<close>

text \<open>
  Exceptions of the Python source are values: a function that can raise returns
  \<open>error + 'a\<close>, with \<open>Inl\<close> the exception. A finite float is the real number it
  denotes, and an operation on single-precision floats is the exact operation followed
  by \<open>round32\<close>; infinities and NaN are not values of the model. Characters are code
  points below 256.
\<close>

datatype error = IndexError | TypeError | ValueError | KeyError | FileNotFoundError | LoadError

definition bind_err :: "error + 'a \<Rightarrow> ('a \<Rightarrow> error + 'b) \<Rightarrow> error + 'b" where
  "bind_err m f = (case m of Inl e \<Rightarrow> Inl e | Inr x \<Rightarrow> f x)"

text \<open>\<open>xs[i]\<close>: a negative index counts from the end, anything out of range raises.\<close>

definition py_index :: "'a list \<Rightarrow> int \<Rightarrow> error + 'a" where
  "py_index xs i =
     (if 0 \<le> i \<and> i < int (length xs) then Inr (xs ! nat i)
      else if i < 0 \<and> - i \<le> int (length xs) then Inr (xs ! nat (int (length xs) + i))
      else Inl IndexError)"

text \<open>\<open>xs[:n]\<close>: a negative bound drops that many elements from the end.\<close>

definition py_take :: "int \<Rightarrow> 'a list \<Rightarrow> 'a list" where
  "py_take n xs = (if 0 \<le> n then take (nat n) xs else take (length xs - nat (- n)) xs)"

text \<open>\<open>sep.join(parts)\<close>\<close>

fun join :: "string \<Rightarrow> string list \<Rightarrow> string" where
  "join sep [] = []"
| "join sep [p] = p"
| "join sep (p # q # ps) = p @ sep @ join sep (q # ps)"

text \<open>\<open>str.lower()\<close> on code points below 256: the ASCII capitals and the Latin-1
  capitals \<open>0xC0\<close> to \<open>0xDE\<close> other than the multiplication sign \<open>0xD7\<close>.\<close>

definition lower_char :: "char \<Rightarrow> char" where
  "lower_char c =
     (case map_of
        (zip (''ABCDEFGHIJKLMNOPQRSTUVWXYZ'' @
           [CHR 0xC0, CHR 0xC1, CHR 0xC2, CHR 0xC3, CHR 0xC4, CHR 0xC5, CHR 0xC6, CHR 0xC7,
            CHR 0xC8, CHR 0xC9, CHR 0xCA, CHR 0xCB, CHR 0xCC, CHR 0xCD, CHR 0xCE, CHR 0xCF,
            CHR 0xD0, CHR 0xD1, CHR 0xD2, CHR 0xD3, CHR 0xD4, CHR 0xD5, CHR 0xD6, CHR 0xD8,
            CHR 0xD9, CHR 0xDA, CHR 0xDB, CHR 0xDC, CHR 0xDD, CHR 0xDE])
             (''abcdefghijklmnopqrstuvwxyz'' @
           [CHR 0xE0, CHR 0xE1, CHR 0xE2, CHR 0xE3, CHR 0xE4, CHR 0xE5, CHR 0xE6, CHR 0xE7,
            CHR 0xE8, CHR 0xE9, CHR 0xEA, CHR 0xEB, CHR 0xEC, CHR 0xED, CHR 0xEE, CHR 0xEF,
            CHR 0xF0, CHR 0xF1, CHR 0xF2, CHR 0xF3, CHR 0xF4, CHR 0xF5, CHR 0xF6, CHR 0xF8,
            CHR 0xF9, CHR 0xFA, CHR 0xFB, CHR 0xFC, CHR 0xFD, CHR 0xFE])) c of
        None \<Rightarrow> c
      | Some l \<Rightarrow> l)"

definition lower :: "string \<Rightarrow> string" where
  "lower s = map lower_char s"

text \<open>\<open>xs.sort(key=f, reverse=True)\<close>: descending and stable.\<close>

definition sort_desc :: "('a \<Rightarrow> real) \<Rightarrow> 'a list \<Rightarrow> 'a list" where
  "sort_desc f xs = sort_key (\<lambda>x. - f x) xs"

section \<open>Corpora (backend/api/retrieval.py)\<close>

text \<open>
  A metadata entry is a dict read with \<open>.get\<close>, so either key may be missing.
  The FAISS index is a library object: \<open>index c q k\<close> is the row that
  \<open>c.index.search(q, k)\<close> returns, as (distance, id) pairs, or the exception it raises.
\<close>

record metadata =
  source_file :: "string option"
  chunk_id :: "int option"

type_synonym embedding = "real list"

type_synonym hits = "(real \<times> int) list"

record CorpusIndex =
  name :: string
  index :: "embedding \<Rightarrow> int \<Rightarrow> error + hits"
  chunks :: "string list"
  metadatas :: "metadata list"

record retrieved =
  score :: real
  bank :: string
  document_name :: string
  hit_chunk_id :: int
  raw_chunk :: string
  merged_text :: string

subsection \<open>Neighbour repair\<close>

definition newline :: string where
  "newline = [CHR 0x0A]"

text \<open>The text of a neighbour at position \<open>j\<close>, when it continues the current chunk
  with the expected chunk id \<open>current_chunk_id + delta\<close>.\<close>

definition neighbor_text ::
  "CorpusIndex \<Rightarrow> int \<Rightarrow> string option \<Rightarrow> int option \<Rightarrow> int \<Rightarrow> error + string list" where
  "neighbor_text corpus j current_file current_chunk_id delta =
     bind_err (py_index (metadatas corpus) j) (\<lambda>neighbor_meta.
       if source_file neighbor_meta = current_file then
         (case current_chunk_id of
            None \<Rightarrow> Inl TypeError
          | Some n \<Rightarrow>
              if chunk_id neighbor_meta = Some (n + delta)
              then bind_err (py_index (chunks corpus) j) (\<lambda>t. Inr [t])
              else Inr [])
       else Inr [])"

definition merge_neighbors :: "CorpusIndex \<Rightarrow> int \<Rightarrow> error + string" where
  "merge_neighbors corpus idx =
     bind_err (py_index (metadatas corpus) idx) (\<lambda>current_meta.
     bind_err (if idx - 1 \<ge> 0
               then neighbor_text corpus (idx - 1) (source_file current_meta) (chunk_id current_meta) (- 1)
               else Inr []) (\<lambda>previous.
     bind_err (py_index (chunks corpus) idx) (\<lambda>current.
     bind_err (if idx + 1 < int (length (chunks corpus))
               then neighbor_text corpus (idx + 1) (source_file current_meta) (chunk_id current_meta) 1
               else Inr []) (\<lambda>following.
     Inr (join newline (previous @ [current] @ following))))))"

subsection \<open>Single-precision arithmetic\<close>

text \<open>
  The distances that the index returns are numpy \<open>float32\<close> values, and so are
  \<open>1 + dist\<close> and \<open>1 / (1 + dist)\<close>: each result is rounded to the nearest float with
  a significand of 24 bits, a tie going to the even significand. \<open>rne\<close> rounds a real
  to the nearest integer in that way. Overflow to infinity is not modelled: it is not
  reached from a finite distance that is not negative.
\<close>

definition rne :: "real \<Rightarrow> int" where
  "rne y =
     (let f = \<lfloor>y\<rfloor> in
      if y - of_int f < 1 / 2 then f
      else if 1 / 2 < y - of_int f then f + 1
      else if even f then f else f + 1)"

text \<open>The exponent of the binade of \<open>x\<close>: the largest \<open>e\<close> from 127 down with
  \<open>2 powi e \<le> x\<close>, and -126 for the subnormal numbers and zero.\<close>

function expo_from :: "int \<Rightarrow> real \<Rightarrow> int" where
  "expo_from e x = (if e \<le> - 126 then - 126 else if 2 powi e \<le> x then e else expo_from (e - 1) x)"
  by pat_completeness auto
termination
  by (relation "measure (\<lambda>(e, x). nat (e + 126))") auto

declare expo_from.simps [simp del]

definition exponent32 :: "real \<Rightarrow> int" where
  "exponent32 x = expo_from 127 x"

text \<open>The nearest multiple of the unit in the last place, which is 23 binary places
  below the exponent; the sign is rounded symmetrically.\<close>

definition round_pos :: "real \<Rightarrow> real" where
  "round_pos x = (let u = 2 powi (exponent32 x - 23) in of_int (rne (x / u)) * u)"

definition round32 :: "real \<Rightarrow> real" where
  "round32 x = (if x < 0 then - round_pos (- x) else round_pos x)"

text \<open>The largest finite single-precision float.\<close>

definition FLT_MAX :: real where
  "FLT_MAX = 340282346638528859811704183484516925440"

subsection \<open>Searching one corpus\<close>

text \<open>\<open>float(1 / (1 + dist))\<close>: the conversion to a Python float is exact.\<close>

definition score_of :: "real \<Rightarrow> real" where
  "score_of distance = round32 (1 / round32 (1 + distance))"

fun collect_hits :: "CorpusIndex \<Rightarrow> hits \<Rightarrow> error + retrieved list" where
  "collect_hits corpus [] = Inr []"
| "collect_hits corpus ((distance, idx) # rest) =
     (if idx = - 1 then collect_hits corpus rest
      else
        bind_err (py_index (metadatas corpus) idx) (\<lambda>meta.
        bind_err (py_index (chunks corpus) idx) (\<lambda>chunk_text.
        bind_err (merge_neighbors corpus idx) (\<lambda>merged.
        bind_err (collect_hits corpus rest) (\<lambda>results.
          Inr (\<lparr>score = score_of distance,
                bank = name corpus,
                document_name = (case source_file meta of None \<Rightarrow> ''unknown'' | Some f \<Rightarrow> f),
                hit_chunk_id = (case chunk_id meta of None \<Rightarrow> idx | Some n \<Rightarrow> n),
                raw_chunk = chunk_text,
                merged_text = merged\<rparr> # results))))))"

definition search_single_corpus :: "CorpusIndex \<Rightarrow> embedding \<Rightarrow> int \<Rightarrow> error + retrieved list" where
  "search_single_corpus corpus query_embedding top_k =
     bind_err (index corpus query_embedding top_k) (collect_hits corpus)"

subsection \<open>The registry of corpora\<close>

text \<open>
  \<open>self._corpora\<close> is a dict from folder name to corpus; iteration follows insertion
  order, so it is an association list that \<open>dict_set\<close> keeps free of duplicate keys.
\<close>

type_synonym registry = "(string \<times> CorpusIndex) list"

fun dict_set :: "('k \<times> 'v) list \<Rightarrow> 'k \<Rightarrow> 'v \<Rightarrow> ('k \<times> 'v) list" where
  "dict_set [] k v = [(k, v)]"
| "dict_set ((k', v') # m) k v = (if k' = k then (k', v) # m else (k', v') # dict_set m k v)"

definition dict_get :: "('k \<times> 'v) list \<Rightarrow> 'k \<Rightarrow> 'v option" where
  "dict_get m k = map_of m k"

text \<open>
  An entry of the storage directory: its two artifacts may be missing, unreadable
  (\<open>faiss.read_index\<close> or \<open>pickle.load\<close> raises) or stored.
\<close>

datatype 'a artifact = Absent | Malformed | Stored 'a

record folder =
  folder_name :: string
  is_dir :: bool
  index_faiss :: "(embedding \<Rightarrow> int \<Rightarrow> error + hits) artifact"
  metadata_pkl :: "(string list \<times> metadata list) artifact"

fun load_folders :: "registry \<Rightarrow> folder list \<Rightarrow> error + registry" where
  "load_folders corpora [] = Inr corpora"
| "load_folders corpora (f # fs) =
     (if \<not> is_dir f then load_folders corpora fs
      else
        (case (index_faiss f, metadata_pkl f) of
           (Absent, _) \<Rightarrow> load_folders corpora fs
         | (_, Absent) \<Rightarrow> load_folders corpora fs
         | (Stored ix, Stored (cs, ms)) \<Rightarrow>
             load_folders
               (dict_set corpora (folder_name f)
                  \<lparr>name = folder_name f, index = ix, chunks = cs, metadatas = ms\<rparr>) fs
         | _ \<Rightarrow> Inl LoadError))"

text \<open>\<open>None\<close> is a storage directory that does not exist.\<close>

definition load_all_corpora :: "folder list option \<Rightarrow> error + registry" where
  "load_all_corpora storage_dir =
     (case storage_dir of None \<Rightarrow> Inl FileNotFoundError | Some fs \<Rightarrow> load_folders [] fs)"

definition available_banks :: "registry \<Rightarrow> string list" where
  "available_banks corpora = filter (\<lambda>name. lower name \<noteq> ''common'') (map fst corpora)"

subsection \<open>Selecting the corpora to search\<close>

definition TOP_K_PER_INDEX :: int where
  "TOP_K_PER_INDEX = 5"

definition MAX_BANKS_WHEN_NO_BANK_SPECIFIED :: int where
  "MAX_BANKS_WHEN_NO_BANK_SPECIFIED = 5"

text \<open>The argument \<open>bank\<close> of \<open>retrieve\<close> is \<open>bank_arg\<close> here, since \<open>bank\<close> is
  the field of a result; \<open>if bank:\<close> holds for a string that is neither \<open>None\<close> nor empty.\<close>

definition truthy :: "string option \<Rightarrow> bool" where
  "truthy bank_arg = (case bank_arg of None \<Rightarrow> False | Some b \<Rightarrow> b \<noteq> [])"

text \<open>The loop that stops at the first corpus whose lower-cased name is the key.\<close>

definition find_bank_corpus :: "registry \<Rightarrow> string \<Rightarrow> CorpusIndex option" where
  "find_bank_corpus corpora bank_key =
     map_option snd (find (\<lambda>(name, c). lower name = bank_key) corpora)"

definition option_list :: "'a option \<Rightarrow> 'a list" where
  "option_list x = (case x of None \<Rightarrow> [] | Some y \<Rightarrow> [y])"

definition corpora_to_search :: "registry \<Rightarrow> string option \<Rightarrow> CorpusIndex list" where
  "corpora_to_search corpora bank_arg =
     (let common_corpus = dict_get corpora ''common'' in
      if truthy bank_arg then
        option_list (find_bank_corpus corpora (lower (case bank_arg of None \<Rightarrow> [] | Some b \<Rightarrow> b)))
          @ option_list common_corpus
      else
        option_list common_corpus
          @ map snd (filter (\<lambda>(name, c). lower name \<noteq> ''common'') corpora))"

subsection \<open>Searching and fusing\<close>

fun search_all :: "CorpusIndex list \<Rightarrow> embedding \<Rightarrow> int \<Rightarrow> error + retrieved list" where
  "search_all [] query_emb top_k = Inr []"
| "search_all (corpus # rest) query_emb top_k =
     bind_err (search_single_corpus corpus query_emb top_k) (\<lambda>corpus_results.
     bind_err (search_all rest query_emb top_k) (\<lambda>more.
       Inr (corpus_results @ more)))"

text \<open>\<open>bank_to_results.setdefault(r["bank"], []).append(r)\<close>\<close>

fun setdefault_append :: "(string \<times> retrieved list) list \<Rightarrow> retrieved \<Rightarrow> (string \<times> retrieved list) list" where
  "setdefault_append [] r = [(bank r, [r])]"
| "setdefault_append ((b, rs) # m) r =
     (if b = bank r then (b, rs @ [r]) # m else (b, rs) # setdefault_append m r)"

definition bank_to_results :: "retrieved list \<Rightarrow> (string \<times> retrieved list) list" where
  "bank_to_results other_results = foldl setdefault_append [] other_results"

text \<open>\<open>max(...)\<close> raises on an empty sequence.\<close>

fun py_max :: "real list \<Rightarrow> error + real" where
  "py_max [] = Inl ValueError"
| "py_max (x # xs) = Inr (fold max xs x)"

fun bank_scores :: "(string \<times> retrieved list) list \<Rightarrow> error + (string \<times> real) list" where
  "bank_scores [] = Inr []"
| "bank_scores ((bank_name, rs) # m) =
     bind_err (py_max (map score rs)) (\<lambda>best_score.
     bind_err (bank_scores m) (\<lambda>more.
       Inr ((bank_name, best_score) # more)))"

text \<open>The loop over \<open>selected_banks\<close>; \<open>bank_to_results[b]\<close> raises on a missing key.\<close>

fun extend_selected ::
  "(string \<times> retrieved list) list \<Rightarrow> int \<Rightarrow> string list \<Rightarrow> error + retrieved list" where
  "extend_selected m top_k [] = Inr []"
| "extend_selected m top_k (b # bs) =
     (case dict_get m b of
        None \<Rightarrow> Inl KeyError
      | Some rs \<Rightarrow> bind_err (extend_selected m top_k bs) (\<lambda>more. Inr (py_take top_k rs @ more)))"

text \<open>Lines 204 to 235 of \<open>retrieve\<close>: the fusion when no bank was given, on the
  results already sorted by score.\<close>

definition fuse_no_bank :: "int \<Rightarrow> retrieved list \<Rightarrow> error + retrieved list" where
  "fuse_no_bank top_k all_results =
     (let common_results = filter (\<lambda>r. lower (bank r) = ''common'') all_results;
          other_results = filter (\<lambda>r. lower (bank r) \<noteq> ''common'') all_results;
          groups = bank_to_results other_results
      in bind_err (bank_scores groups) (\<lambda>scores.
           let selected_banks =
                 map fst (py_take MAX_BANKS_WHEN_NO_BANK_SPECIFIED (sort_desc snd scores))
           in bind_err (extend_selected groups top_k selected_banks) (\<lambda>picked.
                Inr (sort_desc score (py_take top_k common_results @ picked)))))"

definition retrieve ::
  "registry \<Rightarrow> (string \<Rightarrow> embedding) \<Rightarrow> string \<Rightarrow> string option \<Rightarrow> int option
     \<Rightarrow> error + retrieved list" where
  "retrieve corpora encode_query question bank_arg top_k_per_index =
     (let top_k = (case top_k_per_index of None \<Rightarrow> TOP_K_PER_INDEX | Some k \<Rightarrow> k);
          query_emb = encode_query question;
          selected = corpora_to_search corpora bank_arg
      in bind_err (search_all selected query_emb top_k) (\<lambda>found.
           let all_results = sort_desc score found
           in if truthy bank_arg
              then Inr (py_take (top_k * int (length selected)) all_results)
              else fuse_no_bank top_k all_results))"

section \<open>Sources for the prompt (backend/api/chat_logic.py)\<close>

record source =
  src_bank :: string
  src_document_name :: string
  snippet :: string

text \<open>\<open>str.isspace\<close> and the line boundaries of \<open>str.splitlines\<close>, below code point 256.\<close>

definition is_space :: "char \<Rightarrow> bool" where
  "is_space c = ((of_char c :: nat) \<in> {9, 10, 11, 12, 13, 28, 29, 30, 31, 32, 133, 160})"

definition is_linebreak :: "char \<Rightarrow> bool" where
  "is_linebreak c = ((of_char c :: nat) \<in> {10, 11, 12, 13, 28, 29, 30, 133})"

definition strip :: "string \<Rightarrow> string" where
  "strip s = rev (dropWhile is_space (rev (dropWhile is_space s)))"

text \<open>\<open>splitlines_from cur s\<close>: the lines of \<open>s\<close>, the first one prefixed by the
  characters \<open>cur\<close> already read. A carriage return and line feed are one boundary,
  and no empty line follows the last boundary.\<close>

fun splitlines_from :: "string \<Rightarrow> string \<Rightarrow> string list" where
  "splitlines_from cur [] = (if cur = [] then [] else [cur])"
| "splitlines_from cur [c] = (if is_linebreak c then [cur] else [cur @ [c]])"
| "splitlines_from cur (c # d # s) =
     (if c = CHR 0x0D \<and> d = CHR 0x0A then cur # splitlines_from [] s
      else if is_linebreak c then cur # splitlines_from [] (d # s)
      else splitlines_from (cur @ [c]) (d # s))"

definition splitlines :: "string \<Rightarrow> string list" where
  "splitlines s = splitlines_from [] s"

definition make_snippet :: "string \<Rightarrow> string" where
  "make_snippet text = take 400 (join '' '' (splitlines (strip text)))"

definition add_source ::
  "((string \<times> string) \<times> source) list \<Rightarrow> retrieved \<Rightarrow> ((string \<times> string) \<times> source) list" where
  "add_source sources_map doc =
     (let key = (bank doc, document_name doc)
      in if dict_get sources_map key = None
         then sources_map @ [(key, \<lparr>src_bank = bank doc,
                                     src_document_name = document_name doc,
                                     snippet = make_snippet (merged_text doc)\<rparr>)]
         else sources_map)"

definition build_sources_for_llm :: "retrieved list \<Rightarrow> source list" where
  "build_sources_for_llm retrieved_docs = map snd (foldl add_source [] retrieved_docs)"

section \<open>Notions of the specification\<close>

subsection \<open>Adjacent chunks\<close>

text \<open>
  Entry \<open>b\<close> continues entry \<open>a\<close>: the same source document, and the sequence index
  of \<open>b\<close> is the one of \<open>a\<close> plus one.
\<close>

definition follows_on :: "metadata \<Rightarrow> metadata \<Rightarrow> bool" where
  "follows_on a b =
     (source_file a = source_file b \<and>
      (case chunk_id a of None \<Rightarrow> False | Some m \<Rightarrow> chunk_id b = Some (m + 1)))"

text \<open>The neighbours of position \<open>i\<close> that neighbour repair is to include.\<close>

definition has_previous :: "CorpusIndex \<Rightarrow> int \<Rightarrow> bool" where
  "has_previous c i = (1 \<le> i \<and> follows_on (metadatas c ! nat (i - 1)) (metadatas c ! nat i))"

definition has_following :: "CorpusIndex \<Rightarrow> int \<Rightarrow> bool" where
  "has_following c i =
     (i + 1 < int (length (chunks c)) \<and> follows_on (metadatas c ! nat i) (metadatas c ! nat (i + 1)))"

text \<open>
  Position \<open>i\<close> of a corpus whose chunk and metadata arrays are aligned, with the
  integer sequence index that ingestion gives every chunk.
\<close>

definition in_corpus :: "CorpusIndex \<Rightarrow> int \<Rightarrow> bool" where
  "in_corpus c i =
     (length (metadatas c) = length (chunks c) \<and> 0 \<le> i \<and> i < int (length (chunks c)) \<and>
      chunk_id (metadatas c ! nat i) \<noteq> None)"


subsection \<open>Rows of the index\<close>

text \<open>The hits of a row that are not the sentinel \<open>-1\<close>.\<close>

definition real_hits :: "hits \<Rightarrow> hits" where
  "real_hits row = filter (\<lambda>(d, i). i \<noteq> - 1) row"

text \<open>A row all of whose ids are the sentinel or positions of the corpus.\<close>

definition usable_row :: "CorpusIndex \<Rightarrow> hits \<Rightarrow> bool" where
  "usable_row c row = list_all (\<lambda>(d, i). i = - 1 \<or> in_corpus c i) row"

subsection \<open>The registry and the budget\<close>

text \<open>Every corpus is registered under its own name, as the loader does.\<close>

definition registry_ok :: "registry \<Rightarrow> bool" where
  "registry_ok corpora = list_all (\<lambda>(n, c). name c = n) corpora"

text \<open>The budget per corpus that \<open>retrieve\<close> works with.\<close>

definition budget :: "int option \<Rightarrow> int" where
  "budget top_k_per_index = (case top_k_per_index of None \<Rightarrow> TOP_K_PER_INDEX | Some k \<Rightarrow> k)"

subsection \<open>Sources\<close>

text \<open>The pair that identifies a source: corpus name and source document.\<close>

definition doc_key :: "retrieved \<Rightarrow> string \<times> string" where
  "doc_key d = (bank d, document_name d)"

definition source_key :: "source \<Rightarrow> string \<times> string" where
  "source_key s = (src_bank s, src_document_name s)"

text \<open>The elements of a list in the order of their first occurrence, each once; and
  the records that are the first of their pair.\<close>

fun first_occurrences :: "'a list \<Rightarrow> 'a list" where
  "first_occurrences [] = []"
| "first_occurrences (x # xs) = x # first_occurrences (filter (\<lambda>y. y \<noteq> x) xs)"

fun first_docs :: "retrieved list \<Rightarrow> retrieved list" where
  "first_docs [] = []"
| "first_docs (d # ds) = d # first_docs (filter (\<lambda>e. doc_key e \<noteq> doc_key d) ds)"

text \<open>The entry that the projector stores for a record.\<close>

definition source_of :: "retrieved \<Rightarrow> source" where
  "source_of d = \<lparr>src_bank = bank d, src_document_name = document_name d,
                  snippet = make_snippet (merged_text d)\<rparr>"

text \<open>Every newline character replaced by one space; a text without whitespace at its
  ends; a text whose only line boundaries are newline characters.\<close>

definition flatten_newlines :: "string \<Rightarrow> string" where
  "flatten_newlines text = map (\<lambda>c. if c = CHR 0x0A then CHR '' '' else c) text"

definition trimmed :: "string \<Rightarrow> bool" where
  "trimmed text = (text = [] \<or> (\<not> is_space (hd text) \<and> \<not> is_space (last text)))"

definition only_newlines :: "string \<Rightarrow> bool" where
  "only_newlines text = list_all (\<lambda>c. is_linebreak c \<longrightarrow> c = CHR 0x0A) text"

subsection \<open>Fusion without a hint\<close>

text \<open>
  A record is of the shared corpus when the lower case of its corpus name is
  \<open>common\<close>; the other records are scoped, grouped by their corpus name. The best
  score of a scoped corpus is the maximum over its records, and the top \<open>k\<close> of a list
  of records are its first \<open>k\<close> by descending score.
\<close>

definition is_shared :: "retrieved \<Rightarrow> bool" where
  "is_shared r = (lower (bank r) = ''common'')"

definition shared_records :: "retrieved list \<Rightarrow> retrieved list" where
  "shared_records found = filter is_shared found"

definition scoped_records :: "string \<Rightarrow> retrieved list \<Rightarrow> retrieved list" where
  "scoped_records b found = filter (\<lambda>r. \<not> is_shared r \<and> bank r = b) found"

definition scoped_names :: "retrieved list \<Rightarrow> string set" where
  "scoped_names found = bank ` {r \<in> set found. \<not> is_shared r}"

definition best_score :: "string \<Rightarrow> retrieved list \<Rightarrow> real" where
  "best_score b found = Max (score ` set (scoped_records b found))"

definition top_k :: "int \<Rightarrow> retrieved list \<Rightarrow> retrieved list" where
  "top_k k rs = take (nat k) (sort_desc score rs)"

definition descending :: "retrieved list \<Rightarrow> bool" where
  "descending rs = sorted (map (\<lambda>r. - score r) rs)"

text \<open>The scoped corpora of the results with their best scores, ranked, and the names
  that \<open>retrieve\<close> selects from them.\<close>

definition ranked_banks :: "retrieved list \<Rightarrow> (string \<times> real) list" where
  "ranked_banks found =
     sort_desc snd (map (\<lambda>(b, g). (b, Max (score ` set g)))
                        (bank_to_results (filter (\<lambda>r. \<not> is_shared r) found)))"

definition kept_banks :: "retrieved list \<Rightarrow> string list" where
  "kept_banks found = map fst (take (nat MAX_BANKS_WHEN_NO_BANK_SPECIFIED) (ranked_banks found))"

section \<open>Example corpora\<close>



text \<open>An index over two vectors: it pads the row with the sentinel and the largest
  single-precision float, as FAISS does when fewer than \<open>k\<close> vectors exist.\<close>

definition no_hit :: "real \<times> int" where
  "no_hit = (340282346638528859811704183484516925440, - 1)"

definition two_vectors :: "embedding \<Rightarrow> int \<Rightarrow> error + hits" where
  "two_vectors q k =
     (if k \<le> 0 then Inl ValueError
      else Inr (take (nat k) [(1, 1), (3, 0)] @ replicate (nat k - 2) no_hit))"

definition ex2 :: CorpusIndex where
  "ex2 = \<lparr>name = ''sbi'', index = two_vectors, chunks = [''alpha'', ''beta''],
           metadatas = [\<lparr>source_file = Some ''S.pdf'', chunk_id = Some 0\<rparr>,
                        \<lparr>source_file = Some ''T.pdf'', chunk_id = Some 0\<rparr>]\<rparr>"

definition ex2_row :: hits where
  "ex2_row = [(1, 1), (3, 0), no_hit, no_hit, no_hit]"

text \<open>Registries of corpora with two chunks each, and a storage directory whose only
  folder is named \<open>Common\<close>.\<close>

definition two_chunks :: "string \<Rightarrow> CorpusIndex" where
  "two_chunks n = ex2\<lparr>name := n\<rparr>"

definition three_corpora :: registry where
  "three_corpora = [(''common'', two_chunks ''common''), (''hdfc'', two_chunks ''hdfc''),
                    (''sbi'', two_chunks ''sbi'')]"

definition capital_storage :: "folder list" where
  "capital_storage =
     [\<lparr>folder_name = ''Common'', is_dir = True, index_faiss = Stored two_vectors,
       metadata_pkl = Stored ([''alpha'', ''beta''],
                              [\<lparr>source_file = Some ''S.pdf'', chunk_id = Some 0\<rparr>,
                               \<lparr>source_file = Some ''T.pdf'', chunk_id = Some 0\<rparr>])\<rparr>]"

text \<open>Retrieved records: one whose merged text ends in a newline, and a list in which
  two records are of the same document.\<close>

definition fee_doc :: retrieved where
  "fee_doc = \<lparr>score = 1 / 2, bank = ''common'', document_name = ''fees.pdf'', hit_chunk_id = 3,
               raw_chunk = ''Fees'', merged_text = ''Fees'' @ newline\<rparr>"

definition loan_docs :: "retrieved list" where
  "loan_docs =
     [\<lparr>score = 2 / 3, bank = ''hdfc'', document_name = ''loans.pdf'', hit_chunk_id = 1,
       raw_chunk = ''are repaid'', merged_text = ''Loans'' @ newline @ ''are repaid''\<rparr>,
      fee_doc,
      \<lparr>score = 1 / 4, bank = ''hdfc'', document_name = ''loans.pdf'', hit_chunk_id = 7,
       raw_chunk = ''Interest'', merged_text = ''Interest''\<rparr>]"

text \<open>A registry of the shared corpus and seven scoped corpora of one chunk each, at
  different distances from the query, and the records that searching them gives.\<close>

definition one_chunk :: "string \<Rightarrow> real \<Rightarrow> CorpusIndex" where
  "one_chunk n d =
     \<lparr>name = n, index = (\<lambda>q k. Inr ((d, 0) # replicate (nat k - 1) no_hit)),
      chunks = [''policy''],
      metadatas = [\<lparr>source_file = Some ''p.pdf'', chunk_id = Some 0\<rparr>]\<rparr>"

definition eight_corpora :: registry where
  "eight_corpora =
     [(''common'', one_chunk ''common'' 1), (''hdfc'', one_chunk ''hdfc'' 7),
      (''sbi'', one_chunk ''sbi'' 0), (''icici'', one_chunk ''icici'' 31),
      (''axis'', one_chunk ''axis'' 1), (''kotak'', one_chunk ''kotak'' 15),
      (''yes'', one_chunk ''yes'' 63), (''pnb'', one_chunk ''pnb'' 3)]"

definition hit :: "string \<Rightarrow> real \<Rightarrow> retrieved" where
  "hit n s = \<lparr>score = s, bank = n, document_name = ''p.pdf'', hit_chunk_id = 0,
             raw_chunk = ''policy'', merged_text = ''policy''\<rparr>"

definition eight_found :: "retrieved list" where
  "eight_found =
     [hit ''common'' (1 / 2), hit ''hdfc'' (1 / 8), hit ''sbi'' 1, hit ''icici'' (1 / 32),
      hit ''axis'' (1 / 2), hit ''kotak'' (1 / 16), hit ''yes'' (1 / 64), hit ''pnb'' (1 / 4)]"

text \<open>Two chunks whose distances from the query differ by \<open>1 / 2 ^ 30\<close>.\<close>

definition close_pair :: CorpusIndex where
  "close_pair =
     \<lparr>name = ''hdfc'',
      index = (\<lambda>q k. Inr (take (nat k) [(0, 0), (1 / 2 ^ 30, 1)] @ replicate (nat k - 2) no_hit)),
      chunks = [''near'', ''nearly''],
      metadatas = [\<lparr>source_file = Some ''a.pdf'', chunk_id = Some 0\<rparr>,
                   \<lparr>source_file = Some ''b.pdf'', chunk_id = Some 0\<rparr>]\<rparr>"

section \<open>Neighbour repair\<close>

lemma py_index_in_range: "0 \<le> i \<Longrightarrow> i < int (length xs) \<Longrightarrow> py_index xs i = Inr (xs ! nat i)"
  by (simp add: py_index_def)

lemma bind_err_Inr [simp]: "bind_err (Inr x) f = f x"
  by (simp add: bind_err_def)

lemma bind_err_Inl [simp]: "bind_err (Inl e) f = Inl e"
  by (simp add: bind_err_def)

lemma neighbor_text_previous:
  assumes "length (metadatas c) = length (chunks c)" "1 \<le> i" "i < int (length (chunks c))"
    and "chunk_id (metadatas c ! nat i) = Some n"
  shows "neighbor_text c (i - 1) (source_file (metadatas c ! nat i)) (Some n) (- 1) =
         Inr (if has_previous c i then [chunks c ! nat (i - 1)] else [])"
  using assms
  by (auto simp: neighbor_text_def py_index_in_range has_previous_def follows_on_def split: option.splits)

lemma neighbor_text_following:
  assumes "length (metadatas c) = length (chunks c)" "0 \<le> i" "i + 1 < int (length (chunks c))"
    and "chunk_id (metadatas c ! nat i) = Some n"
  shows "neighbor_text c (i + 1) (source_file (metadatas c ! nat i)) (Some n) 1 =
         Inr (if has_following c i then [chunks c ! nat (i + 1)] else [])"
  using assms
  by (auto simp: neighbor_text_def py_index_in_range has_following_def follows_on_def split: option.splits)

lemma merge_neighbors_in_corpus:
  assumes "in_corpus c i"
  shows "merge_neighbors c i =
         Inr (join newline ((if has_previous c i then [chunks c ! nat (i - 1)] else []) @
                            [chunks c ! nat i] @
                            (if has_following c i then [chunks c ! nat (i + 1)] else [])))"
proof -
  from assms obtain n where len: "length (metadatas c) = length (chunks c)"
    and lo: "0 \<le> i" and hi: "i < int (length (chunks c))"
    and cid: "chunk_id (metadatas c ! nat i) = Some n"
    by (auto simp: in_corpus_def)
  have cur: "py_index (metadatas c) i = Inr (metadatas c ! nat i)"
    and ctext: "py_index (chunks c) i = Inr (chunks c ! nat i)"
    using len lo hi by (simp_all add: py_index_in_range)
  have prev: "(if i - 1 \<ge> 0
               then neighbor_text c (i - 1) (source_file (metadatas c ! nat i)) (chunk_id (metadatas c ! nat i)) (- 1)
               else Inr []) = Inr (if has_previous c i then [chunks c ! nat (i - 1)] else [])"
  proof (cases "1 \<le> i")
    case True
    then show ?thesis using neighbor_text_previous [OF len True hi cid] cid by simp
  next
    case False
    then show ?thesis by (simp add: has_previous_def)
  qed
  have nxt: "(if i + 1 < int (length (chunks c))
               then neighbor_text c (i + 1) (source_file (metadatas c ! nat i)) (chunk_id (metadatas c ! nat i)) 1
               else Inr []) = Inr (if has_following c i then [chunks c ! nat (i + 1)] else [])"
  proof (cases "i + 1 < int (length (chunks c))")
    case True
    then show ?thesis using neighbor_text_following [OF len lo True cid] cid by simp
  next
    case False
    then show ?thesis by (simp add: has_following_def)
  qed
  show ?thesis
    unfolding merge_neighbors_def cur bind_err_Inr prev ctext nxt ..
qed







section \<open>Single-precision rounding\<close>

lemma expo_from_char:
  "- 126 \<le> e \<Longrightarrow> x < 2 powi (e + 1) \<Longrightarrow>
     - 126 \<le> expo_from e x \<and> expo_from e x \<le> e \<and> x < 2 powi (expo_from e x + 1) \<and>
     (expo_from e x = - 126 \<or> 2 powi (expo_from e x) \<le> x)"
proof (induction e x rule: expo_from.induct)
  case (1 e x)
  show ?case
  proof (cases "e \<le> - 126")
    case True
    with "1.prems" have "e = - 126" by simp
    with "1.prems" show ?thesis by (simp add: expo_from.simps)
  next
    case False
    note notlow = this
    show ?thesis
    proof (cases "2 powi e \<le> x")
      case True
      with notlow "1.prems" show ?thesis by (simp add: expo_from.simps)
    next
      case False
      then have "x < 2 powi (e - 1 + 1)" by simp
      moreover from notlow have "- 126 \<le> e - 1" by simp
      ultimately have "- 126 \<le> expo_from (e - 1) x \<and> expo_from (e - 1) x \<le> e - 1 \<and>
         x < 2 powi (expo_from (e - 1) x + 1) \<and>
         (expo_from (e - 1) x = - 126 \<or> 2 powi (expo_from (e - 1) x) \<le> x)"
        using "1.IH" [OF notlow False] by blast
      moreover have "expo_from e x = expo_from (e - 1) x"
        using notlow False by (subst expo_from.simps) simp
      ultimately show ?thesis by simp
    qed
  qed
qed


lemma exponent32_char:
  assumes "x < 2 powi 128"
  shows "- 126 \<le> exponent32 x" "exponent32 x \<le> 127" "x < 2 powi (exponent32 x + 1)"
    "exponent32 x = - 126 \<or> 2 powi (exponent32 x) \<le> x"
  using expo_from_char [of 127 x] assms by (simp_all add: exponent32_def)

lemma pow2_mono: "a \<le> b \<Longrightarrow> (2::real) powi a \<le> 2 powi b"
  by (rule power_int_increasing) simp_all

lemma pow2_step: "(2::real) powi (e + 1) = 2 * 2 powi e"
  by (simp add: power_int_add)

lemma exponent32_eqI:
  assumes "2 powi e \<le> x" "x < 2 powi (e + 1)" "- 126 \<le> e" "e \<le> 127"
  shows "exponent32 x = e"
proof -
  from assms(2,4) have "x < 2 powi 128"
    using pow2_mono [of "e + 1" 128] by simp
  note c = exponent32_char [OF this]
  have "\<not> exponent32 x < e"
  proof
    assume "exponent32 x < e"
    then have "2 powi (exponent32 x + 1) \<le> (2::real) powi e" by (intro pow2_mono) simp
    with c(3) assms(1) show False by simp
  qed
  moreover have "\<not> e < exponent32 x"
  proof
    assume lt: "e < exponent32 x"
    with assms(3) c(4) have "2 powi (exponent32 x) \<le> x" by auto
    moreover from lt have "2 powi (e + 1) \<le> (2::real) powi (exponent32 x)" by (intro pow2_mono) simp
    ultimately show False using assms(2) by simp
  qed
  ultimately show ?thesis by simp
qed

lemma exponent32_subnormal:
  assumes "x < 2 powi (- 126)"
  shows "exponent32 x = - 126"
proof -
  from assms have "x < 2 powi 128" using pow2_mono [of "- 126" 128] by simp
  note c = exponent32_char [OF this]
  show ?thesis
  proof (rule ccontr)
    assume "exponent32 x \<noteq> - 126"
    with c(1,4) have "- 126 < exponent32 x" "2 powi (exponent32 x) \<le> x" by auto
    with assms pow2_mono [of "- 126" "exponent32 x"] show False by simp
  qed
qed

lemma exponent32_mono:
  assumes "x \<le> y" "y < 2 powi 128"
  shows "exponent32 x \<le> exponent32 y"
proof (rule ccontr)
  assume "\<not> exponent32 x \<le> exponent32 y"
  then have lt: "exponent32 y < exponent32 x" by simp
  from assms have "x < 2 powi 128" by simp
  note cx = exponent32_char [OF this] and cy = exponent32_char [OF assms(2)]
  from lt cy(1) cx(4) have "2 powi (exponent32 x) \<le> x" by auto
  moreover from lt have "2 powi (exponent32 y + 1) \<le> (2::real) powi (exponent32 x)"
    by (intro pow2_mono) simp
  ultimately show False using cy(3) assms(1) by simp
qed

lemma rne_of_int [simp]: "rne (of_int n) = n"
  by (simp add: rne_def)

lemma rne_range: "\<lfloor>y\<rfloor> \<le> rne y \<and> rne y \<le> \<lfloor>y\<rfloor> + 1"
  by (simp add: rne_def Let_def)

lemma rne_mono:
  assumes "a \<le> b"
  shows "rne a \<le> rne b"
proof (cases "\<lfloor>a\<rfloor> = \<lfloor>b\<rfloor>")
  case True
  with assms show ?thesis by (auto simp: rne_def Let_def)
next
  case False
  with assms have "\<lfloor>a\<rfloor> < \<lfloor>b\<rfloor>" using floor_mono [of a b] by simp
  then have "\<lfloor>a\<rfloor> + 1 \<le> \<lfloor>b\<rfloor>" by simp
  with rne_range [of a] rne_range [of b] show ?thesis by linarith
qed

lemma rne_near: "\<bar>of_int (rne y) - y\<bar> \<le> 1 / 2"
  by (auto simp: rne_def Let_def)


lemma round_pos_bounds:
  assumes "0 \<le> x" "x < 2 powi 128"
  shows "round_pos x \<le> 2 powi (exponent32 x + 1)"
    and "0 \<le> round_pos x"
    and "exponent32 x \<noteq> - 126 \<Longrightarrow> 2 powi (exponent32 x) \<le> round_pos x"
proof -
  let ?e = "exponent32 x"
  let ?u = "(2::real) powi (?e - 23)"
  note c = exponent32_char [OF assms(2)]
  have u: "0 < ?u" by simp
  have top: "2 powi (?e + 1) = of_int (2 ^ 24) * ?u"
    by (simp add: power_int_diff power_int_add)
  have bot: "2 powi ?e = of_int (2 ^ 23) * ?u"
    by (simp add: power_int_diff)
  have rp: "round_pos x = of_int (rne (x / ?u)) * ?u" by (simp add: round_pos_def Let_def)
  from c(3) top u have "x / ?u \<le> of_int (2 ^ 24)"
    by (simp add: pos_divide_le_eq)
  from rne_mono [OF this] have "rne (x / ?u) \<le> 2 ^ 24" by (simp only: rne_of_int)
  then have "(of_int (rne (x / ?u)) :: real) \<le> of_int (2 ^ 24)" by (simp only: of_int_le_iff)
  with u have "of_int (rne (x / ?u)) * ?u \<le> of_int (2 ^ 24) * ?u"
    by (simp only: mult_le_cancel_right_pos)
  with rp top show "round_pos x \<le> 2 powi (?e + 1)" by simp
  from assms(1) u have "of_int 0 \<le> x / ?u" by simp
  from rne_mono [OF this] have "0 \<le> rne (x / ?u)" by (simp only: rne_of_int)
  with u rp show "0 \<le> round_pos x" by simp
  assume "?e \<noteq> - 126"
  with c(4) have "2 powi ?e \<le> x" by simp
  with bot u have "of_int (2 ^ 23) \<le> x / ?u" by (simp add: pos_le_divide_eq)
  from rne_mono [OF this] have "2 ^ 23 \<le> rne (x / ?u)" by (simp only: rne_of_int)
  then have "(of_int (2 ^ 23) :: real) \<le> of_int (rne (x / ?u))" by (simp only: of_int_le_iff)
  with u have "of_int (2 ^ 23) * ?u \<le> of_int (rne (x / ?u)) * ?u"
    by (simp only: mult_le_cancel_right_pos)
  with rp bot show "2 powi ?e \<le> round_pos x" by simp
qed

lemma round_pos_mono:
  assumes "0 \<le> x" "x \<le> y" "y < 2 powi 128"
  shows "round_pos x \<le> round_pos y"
proof -
  from assms have x128: "x < 2 powi 128" and y0: "0 \<le> y" by simp_all
  have le: "exponent32 x \<le> exponent32 y" using assms(2,3) by (rule exponent32_mono)
  show ?thesis
  proof (cases "exponent32 x = exponent32 y")
    case True
    let ?u = "(2::real) powi (exponent32 y - 23)"
    have u: "0 < ?u" by simp
    from assms(2) u have "x / ?u \<le> y / ?u" by (simp add: divide_right_mono)
    from rne_mono [OF this] have "(of_int (rne (x / ?u)) :: real) \<le> of_int (rne (y / ?u))"
      by (simp only: of_int_le_iff)
    with u have "of_int (rne (x / ?u)) * ?u \<le> of_int (rne (y / ?u)) * ?u"
      by (simp only: mult_le_cancel_right_pos)
    with True show ?thesis by (simp add: round_pos_def Let_def)
  next
    case False
    with le have lt: "exponent32 x < exponent32 y" by simp
    from exponent32_char(1) [OF x128] lt have "exponent32 y \<noteq> - 126" by simp
    from round_pos_bounds(3) [OF y0 assms(3) this] have "2 powi (exponent32 y) \<le> round_pos y" .
    moreover from lt have "2 powi (exponent32 x + 1) \<le> (2::real) powi (exponent32 y)"
      by (intro pow2_mono) simp
    moreover note round_pos_bounds(1) [OF assms(1) x128]
    ultimately show ?thesis by simp
  qed
qed

lemma round_pos_near:
  "\<bar>round_pos x - x\<bar> \<le> 2 powi (exponent32 x - 24)"
proof -
  let ?u = "(2::real) powi (exponent32 x - 23)"
  have u: "0 < ?u" by simp
  have half: "2 powi (exponent32 x - 24) = ?u / 2" by (simp add: power_int_diff)
  have "round_pos x - x = (of_int (rne (x / ?u)) - x / ?u) * ?u"
    using u by (simp add: round_pos_def Let_def left_diff_distrib)
  then have "\<bar>round_pos x - x\<bar> = \<bar>of_int (rne (x / ?u)) - x / ?u\<bar> * ?u"
    using u by (simp add: abs_mult)
  also have "\<dots> \<le> (1 / 2) * ?u"
    using rne_near [of "x / ?u"] u by (simp only: mult_le_cancel_right_pos)
  finally show ?thesis using half by simp
qed

lemma round_pos_exact:
  assumes "2 powi e \<le> x" "x < 2 powi (e + 1)" "- 126 \<le> e" "e \<le> 127"
    and "x = of_int n * 2 powi (e - 23)"
  shows "round_pos x = x"
proof -
  have e: "exponent32 x = e" using assms(1-4) by (rule exponent32_eqI)
  have "x / 2 powi (e - 23) = of_int n" using assms(5) by simp
  with e assms(5) show ?thesis by (simp add: round_pos_def Let_def)
qed


lemma round_pos_eval:
  assumes "2 powi e \<le> x" "x < 2 powi (e + 1)" "- 126 \<le> e" "e \<le> 127"
  shows "round_pos x = of_int (rne (x / 2 powi (e - 23))) * 2 powi (e - 23)"
  using exponent32_eqI [OF assms] by (simp add: round_pos_def Let_def)

lemma round_pos_eval_subnormal:
  assumes "x < 2 powi (- 126)"
  shows "round_pos x = of_int (rne (x / 2 powi (- 149))) * 2 powi (- 149)"
  using exponent32_subnormal [OF assms] by (simp add: round_pos_def Let_def)

lemma round_pos_one: "round_pos 1 = 1"
  by (subst round_pos_eval [of 0]) (simp_all add: rne_def)

lemma round_pos_largest: "round_pos (1 + FLT_MAX) = FLT_MAX"
  by (subst round_pos_eval [of 127]) (simp_all add: FLT_MAX_def rne_def)

lemma round_pos_smallest: "round_pos (2 powi (- 128)) = 2 powi (- 128)"
  by (subst round_pos_eval_subnormal) (simp_all add: rne_def)

lemma FLT_MAX_less: "1 + FLT_MAX < 2 powi 128"
  by (simp add: FLT_MAX_def)

lemma round32_sum:
  assumes "0 \<le> d" "d \<le> FLT_MAX"
  shows "1 \<le> round32 (1 + d)" "round32 (1 + d) \<le> FLT_MAX"
proof -
  from assms have r: "round32 (1 + d) = round_pos (1 + d)" by (simp add: round32_def)
  from assms FLT_MAX_less have lt: "1 + d < 2 powi 128" by simp
  have "round_pos 1 \<le> round_pos (1 + d)"
    using assms(1) lt by (intro round_pos_mono) simp_all
  with r show "1 \<le> round32 (1 + d)" by (simp add: round_pos_one)
  have "round_pos (1 + d) \<le> round_pos (1 + FLT_MAX)"
    using assms FLT_MAX_less by (intro round_pos_mono) simp_all
  with r show "round32 (1 + d) \<le> FLT_MAX" by (simp add: round_pos_largest)
qed

lemma round32_sum_mono:
  assumes "0 \<le> d" "d \<le> e" "e \<le> FLT_MAX"
  shows "round32 (1 + d) \<le> round32 (1 + e)"
proof -
  from assms FLT_MAX_less have "1 + e < 2 powi 128" by simp
  with assms have "round_pos (1 + d) \<le> round_pos (1 + e)" by (intro round_pos_mono) simp_all
  with assms show ?thesis by (simp add: round32_def)
qed

lemma score_of_bounds:
  assumes "0 \<le> d" "d \<le> FLT_MAX"
  shows "0 < score_of d" "score_of d \<le> 1"
proof -
  let ?s = "round32 (1 + d)"
  note s = round32_sum [OF assms]
  from s(1) have pos: "0 < 1 / ?s" and le1: "1 / ?s \<le> 1" by simp_all
  have "FLT_MAX \<le> 2 powi 128" by (simp add: FLT_MAX_def)
  with s have "?s \<le> 2 powi 128" by simp
  with s(1) have low: "2 powi (- 128) \<le> 1 / ?s"
    by (simp add: power_int_minus_divide frac_le)
  from pos have sc: "score_of d = round_pos (1 / ?s)" by (simp add: score_of_def round32_def)
  have "round_pos (2 powi (- 128)) \<le> round_pos (1 / ?s)"
    using low le1 by (intro round_pos_mono) simp_all
  with sc have "2 powi (- 128) \<le> score_of d" by (simp only: round_pos_smallest)
  moreover have "(0::real) < 2 powi (- 128)" by simp
  ultimately show "0 < score_of d" by linarith
  have "round_pos (1 / ?s) \<le> round_pos 1"
    using pos le1 by (intro round_pos_mono) simp_all
  with sc show "score_of d \<le> 1" by (simp add: round_pos_one)
qed

lemma score_of_antimono:
  assumes "0 \<le> d" "d \<le> e" "e \<le> FLT_MAX"
  shows "score_of e \<le> score_of d"
proof -
  let ?s = "round32 (1 + d)" and ?t = "round32 (1 + e)"
  from assms have dm: "d \<le> FLT_MAX" and e0: "0 \<le> e" by simp_all
  note s = round32_sum [OF assms(1) dm] and t = round32_sum [OF e0 assms(3)]
  have st: "?s \<le> ?t" using assms by (rule round32_sum_mono)
  with s(1) have q: "1 / ?t \<le> 1 / ?s" by (simp add: frac_le)
  from t(1) have tp: "0 \<le> 1 / ?t" by simp
  from s(1) have "1 / ?s \<le> 1" by simp
  then have "1 / ?s < 2 powi 128" by (rule le_less_trans) simp
  with tp q have "round_pos (1 / ?t) \<le> round_pos (1 / ?s)" by (intro round_pos_mono)
  moreover from s(1) t(1) have "\<not> 1 / ?s < 0" "\<not> 1 / ?t < 0" by simp_all
  ultimately show ?thesis by (simp add: score_of_def round32_def)
qed

lemma score_of_zero: "score_of 0 = 1"
  by (simp add: score_of_def round32_def round_pos_one)

lemma score_of_close: "score_of (1 / 2 ^ 30) = 1"
proof -
  have "round_pos (1 + 1 / 2 ^ 30) = 1"
    by (subst round_pos_eval [of 0]) (simp_all add: rne_def)
  then show ?thesis by (simp add: score_of_def round32_def round_pos_one)
qed

lemma score_of_half: "score_of (1 / 2) = 11184811 / 16777216"
proof -
  have a: "round_pos (3 / 2) = 3 / 2"
    by (subst round_pos_eval [of 0]) (simp_all add: rne_def)
  have b: "round_pos (2 / 3) = 11184811 / 16777216"
    by (subst round_pos_eval [of "- 1"]) (simp_all add: rne_def)
  have "score_of (1 / 2) = round_pos (2 / 3)"
    by (simp add: score_of_def round32_def a)
  with b show ?thesis by simp
qed

lemma pow2_less_step: "(2::real) powi e < 2 powi (e + 1)"
  by (simp add: pow2_step)

lemma score_of_pow2:
  assumes "0 \<le> j" "j \<le> 126"
  shows "score_of (2 powi j - 1) = 2 powi (- j)"
proof -
  have a: "round_pos (2 powi j) = 2 powi j"
    using assms by (intro round_pos_exact [of j _ "2 ^ 23"]) (simp_all add: power_int_diff pow2_less_step)
  have b: "round_pos (2 powi (- j)) = 2 powi (- j)"
  proof (rule round_pos_exact [of "- j" _ "2 ^ 23"])
    show "(2::real) powi (- j) \<le> 2 powi (- j)" by simp
    show "(2::real) powi (- j) < 2 powi (- j + 1)" by (rule pow2_less_step)
    show "- 126 \<le> - j" "- j \<le> 127" using assms by simp_all
    show "(2::real) powi (- j) = of_int (2 ^ 23) * 2 powi (- j - 23)"
      by (simp add: power_int_diff)
  qed
  have p: "(0::real) < 2 powi j" by simp
  from p have np: "\<not> (2::real) powi j < 0" "\<not> 1 / (2::real) powi j < 0"
    by (simp_all add: not_less)
  have "score_of (2 powi j - 1) = round_pos (1 / 2 powi j)"
    by (simp add: score_of_def round32_def a np)
  with b show ?thesis by (simp add: power_int_minus_divide)
qed

lemma score_of_values:
  "score_of 1 = 1 / 2" "score_of 3 = 1 / 4" "score_of 7 = 1 / 8" "score_of 15 = 1 / 16"
  "score_of 31 = 1 / 32" "score_of 63 = 1 / 64"
  using score_of_pow2 [of 1] score_of_pow2 [of 2] score_of_pow2 [of 3] score_of_pow2 [of 4]
    score_of_pow2 [of 5] score_of_pow2 [of 6]
  by simp_all

section \<open>Searching one corpus\<close>

lemma collect_hits_Inr:
  "collect_hits c row = Inr rs \<Longrightarrow>
     map score rs = map (\<lambda>(d, i). score_of d) (real_hits row) \<and>
     map bank rs = map (\<lambda>h. name c) (real_hits row)"
proof (induction row arbitrary: rs)
  case Nil
  then show ?case by (simp add: real_hits_def)
next
  case (Cons h row)
  obtain d i where h: "h = (d, i)" by (cases h)
  show ?case
  proof (cases "i = - 1")
    case True
    with Cons h show ?thesis by (simp add: real_hits_def)
  next
    case False
    with Cons.prems h obtain r rest where rs: "rs = r # rest" and rest: "collect_hits c row = Inr rest"
      and r: "score r = score_of d" "bank r = name c"
      by (auto simp: bind_err_def split: sum.splits)
    from Cons.IH [OF rest] rs r h False show ?thesis by (simp add: real_hits_def)
  qed
qed

lemma collect_hits_usable:
  "usable_row c row \<Longrightarrow>
     \<exists>rs. collect_hits c row = Inr rs \<and>
          map raw_chunk rs = map (\<lambda>(d, i). chunks c ! nat i) (real_hits row)"
proof (induction row)
  case Nil
  then show ?case by (simp add: real_hits_def)
next
  case (Cons h row)
  obtain d i where h: "h = (d, i)" by (cases h)
  from Cons.prems have row: "usable_row c row" by (simp add: usable_row_def)
  from Cons.IH [OF row] obtain rest where rest: "collect_hits c row = Inr rest"
    "map raw_chunk rest = map (\<lambda>(d, i). chunks c ! nat i) (real_hits row)" by blast
  show ?case
  proof (cases "i = - 1")
    case True
    with rest h show ?thesis by (simp add: real_hits_def)
  next
    case False
    with Cons.prems h have i: "in_corpus c i" by (simp add: usable_row_def)
    then have "py_index (metadatas c) i = Inr (metadatas c ! nat i)"
      "py_index (chunks c) i = Inr (chunks c ! nat i)"
      by (simp_all add: in_corpus_def py_index_in_range)
    with rest h False merge_neighbors_in_corpus [OF i] show ?thesis
      by (simp add: real_hits_def)
  qed
qed

lemma ex2_index: "index ex2 [] 5 = Inr ex2_row"
  by (simp add: ex2_def two_vectors_def ex2_row_def numeral_eq_Suc)

lemma ex2_real_hits: "real_hits ex2_row = [(1, 1), (3, 0)]"
  by (simp add: real_hits_def ex2_row_def no_hit_def)

text \<open>
  Claim C5. A search returns one record per hit of the row that is not the sentinel
  \<open>-1\<close>, in the order of the row, so never more records than the row has entries.
  When the index answers a budget \<open>k\<close> with a row of \<open>k\<close> entries, each the sentinel or
  a position of the corpus, the search raises nothing and returns at most \<open>k\<close> records:
  the chunks at the positions the index found. A budget of 5 against a corpus of 2
  vectors gives exactly 2 records.
\<close>

theorem search_single_corpus_bounded:
  "(search_single_corpus c q k = Inr rs \<and> index c q k = Inr row \<longrightarrow>
      length rs = length (real_hits row) \<and> length rs \<le> length row) \<and>
   (index c q k = Inr row \<and> int (length row) = k \<and> usable_row c row \<longrightarrow>
      (\<exists>rs. search_single_corpus c q k = Inr rs \<and> int (length rs) \<le> k \<and>
            map raw_chunk rs = map (\<lambda>(d, i). chunks c ! nat i) (real_hits row)))"
proof (intro conjI impI)
  assume a: "search_single_corpus c q k = Inr rs \<and> index c q k = Inr row"
  then have "collect_hits c row = Inr rs" by (auto simp: search_single_corpus_def)
  from collect_hits_Inr [OF this] have "length (map score rs) = length (real_hits row)" by simp
  then show "length rs = length (real_hits row)" by simp
  then show "length rs \<le> length row" by (simp add: real_hits_def)
next
  assume a: "index c q k = Inr row \<and> int (length row) = k \<and> usable_row c row"
  then obtain rs where rs: "collect_hits c row = Inr rs"
    "map raw_chunk rs = map (\<lambda>(d, i). chunks c ! nat i) (real_hits row)"
    using collect_hits_usable by blast
  from rs(2) have "length rs = length (real_hits row)" by (metis length_map)
  then have "length rs \<le> length row" by (simp add: real_hits_def)
  with a rs show "\<exists>rs. search_single_corpus c q k = Inr rs \<and> int (length rs) \<le> k \<and>
            map raw_chunk rs = map (\<lambda>(d, i). chunks c ! nat i) (real_hits row)"
    by (auto simp: search_single_corpus_def)
qed

theorem search_single_corpus_bounded_witness:
  "index ex2 [] 5 = Inr ex2_row \<and> int (length ex2_row) = 5 \<and> usable_row ex2 ex2_row \<and>
   (\<exists>rs. search_single_corpus ex2 [] 5 = Inr rs \<and> length rs = 2 \<and>
         map raw_chunk rs = [''beta'', ''alpha''])"
proof -
  have h: "int (length ex2_row) = 5" "usable_row ex2 ex2_row"
    by (simp_all add: ex2_row_def usable_row_def in_corpus_def ex2_def no_hit_def)
  from search_single_corpus_bounded [of ex2 "[]" 5 _ ex2_row] ex2_index h
  obtain rs where rs: "search_single_corpus ex2 [] 5 = Inr rs"
    "map raw_chunk rs = map (\<lambda>(d, i). chunks ex2 ! nat i) (real_hits ex2_row)"
    by blast
  from search_single_corpus_bounded [of ex2 "[]" 5 rs ex2_row] rs(1) ex2_index
  have "length rs = length (real_hits ex2_row)" by blast
  with rs ex2_index h show ?thesis
    by (simp add: ex2_real_hits) (simp add: ex2_def)
qed

text \<open>
  The score is not the real number \<open>1 / (1 + distance)\<close>, and a larger distance does
  not always give a strictly smaller score: the distances 0 and \<open>1 / 2 ^ 30\<close> both give
  the score 1, since \<open>1 + 1 / 2 ^ 30\<close> rounds to 1, and the distance \<open>1 / 2\<close> gives
  \<open>11184811 / 16777216\<close>, the float next to \<open>2 / 3\<close>.
\<close>

theorem search_single_corpus_score_rounds:
  "index close_pair [] 2 = Inr [(0, 0), (1 / 2 ^ 30, 1)] \<and> (0::real) < 1 / 2 ^ 30 \<and>
   search_single_corpus close_pair [] 2 =
     Inr [\<lparr>score = 1, bank = ''hdfc'', document_name = ''a.pdf'', hit_chunk_id = 0,
           raw_chunk = ''near'', merged_text = ''near''\<rparr>,
          \<lparr>score = 1, bank = ''hdfc'', document_name = ''b.pdf'', hit_chunk_id = 0,
           raw_chunk = ''nearly'', merged_text = ''nearly''\<rparr>] \<and>
   score_of (1 / 2) = 11184811 / 16777216 \<and> score_of (1 / 2) \<noteq> 1 / (1 + 1 / 2)"
proof -
  have row: "index close_pair [] 2 = Inr [(0, 0), (1 / 2 ^ 30, 1)]"
    by (simp add: close_pair_def numeral_eq_Suc)
  have close: "score_of (1 / 1073741824) = 1" using score_of_close by simp
  have "collect_hits close_pair [(0, 0), (1 / 2 ^ 30, 1)] =
     Inr [\<lparr>score = 1, bank = ''hdfc'', document_name = ''a.pdf'', hit_chunk_id = 0,
           raw_chunk = ''near'', merged_text = ''near''\<rparr>,
          \<lparr>score = 1, bank = ''hdfc'', document_name = ''b.pdf'', hit_chunk_id = 0,
           raw_chunk = ''nearly'', merged_text = ''nearly''\<rparr>]"
    by (simp add: close_pair_def merge_neighbors_def neighbor_text_def py_index_def
        score_of_zero close)
  with row show ?thesis
    by (simp add: search_single_corpus_def score_of_half)
qed

text \<open>
  Claim C6, amended. The score of every record is the single-precision value of
  \<open>1 / (1 + distance)\<close> for the distance of its hit: the sum rounded to the nearest
  float, and the quotient of 1 by it rounded again. For finite distances that are not
  negative, as the squared Euclidean distances of the flat L2 index are, every score
  is positive, and of two results the one with the larger distance never has the
  larger score; the scores of two different distances may be equal.
\<close>

theorem search_single_corpus_score:
  "search_single_corpus c q k = Inr rs \<and> index c q k = Inr row \<longrightarrow>
     map score rs = map (\<lambda>(d, i). round32 (1 / round32 (1 + d))) (real_hits row) \<and>
     ((\<forall>h \<in> set row. 0 \<le> fst h \<and> fst h \<le> FLT_MAX) \<longrightarrow>
        (\<forall>r \<in> set rs. 0 < score r) \<and>
        (\<forall>m n. m < length rs \<and> n < length rs \<and> fst (real_hits row ! m) \<le> fst (real_hits row ! n)
                \<longrightarrow> score (rs ! n) \<le> score (rs ! m)))"
proof (intro impI)
  assume a: "search_single_corpus c q k = Inr rs \<and> index c q k = Inr row"
  then have "collect_hits c row = Inr rs" by (auto simp: search_single_corpus_def)
  from collect_hits_Inr [OF this]
  have sc: "map score rs = map (\<lambda>(d, i). score_of d) (real_hits row)" by simp
  then have len: "length rs = length (real_hits row)" by (metis length_map)
  have nth: "score (rs ! m) = score_of (fst (real_hits row ! m))" if "m < length rs" for m
  proof -
    have "map score rs ! m = map (\<lambda>(d, i). score_of d) (real_hits row) ! m" using sc by simp
    with that len show ?thesis by (simp add: case_prod_beta)
  qed
  have mem: "real_hits row ! m \<in> set row" if "m < length rs" for m
    using that len by (metis filter_is_subset nth_mem real_hits_def subsetD)
  have pos: "\<forall>r \<in> set rs. 0 < score r" if nn: "\<forall>h \<in> set row. 0 \<le> fst h \<and> fst h \<le> FLT_MAX"
  proof
    fix r assume "r \<in> set rs"
    then obtain m where m: "m < length rs" "r = rs ! m" by (metis in_set_conv_nth)
    from mem [OF m(1)] nn have "0 \<le> fst (real_hits row ! m)" "fst (real_hits row ! m) \<le> FLT_MAX"
      by blast+
    then have "0 < score_of (fst (real_hits row ! m))" by (rule score_of_bounds)
    with m nth show "0 < score r" by simp
  qed
  have mono: "\<forall>m n. m < length rs \<and> n < length rs \<and> fst (real_hits row ! m) \<le> fst (real_hits row ! n)
                \<longrightarrow> score (rs ! n) \<le> score (rs ! m)"
    if nn: "\<forall>h \<in> set row. 0 \<le> fst h \<and> fst h \<le> FLT_MAX"
  proof (intro allI impI)
    fix m n assume mn: "m < length rs \<and> n < length rs \<and> fst (real_hits row ! m) \<le> fst (real_hits row ! n)"
    then have m: "m < length rs" and n: "n < length rs"
      and le: "fst (real_hits row ! m) \<le> fst (real_hits row ! n)" by simp_all
    from mem [OF m] nn have "0 \<le> fst (real_hits row ! m)" by blast
    moreover from mem [OF n] nn have "fst (real_hits row ! n) \<le> FLT_MAX" by blast
    ultimately have "score_of (fst (real_hits row ! n)) \<le> score_of (fst (real_hits row ! m))"
      using le by (intro score_of_antimono)
    with nth [OF m] nth [OF n] show "score (rs ! n) \<le> score (rs ! m)" by simp
  qed
  from sc pos mono show "map score rs = map (\<lambda>(d, i). round32 (1 / round32 (1 + d))) (real_hits row) \<and>
     ((\<forall>h \<in> set row. 0 \<le> fst h \<and> fst h \<le> FLT_MAX) \<longrightarrow>
        (\<forall>r \<in> set rs. 0 < score r) \<and>
        (\<forall>m n. m < length rs \<and> n < length rs \<and> fst (real_hits row ! m) \<le> fst (real_hits row ! n)
                \<longrightarrow> score (rs ! n) \<le> score (rs ! m)))"
    by (simp add: score_of_def)
qed

theorem search_single_corpus_score_witness:
  "\<exists>rs. search_single_corpus ex2 [] 5 = Inr rs \<and> index ex2 [] 5 = Inr ex2_row \<and>
        list_all (\<lambda>h. 0 \<le> fst h \<and> fst h \<le> FLT_MAX) ex2_row \<and>
        map score rs = [1 / 2, 1 / 4] \<and> score (rs ! 1) \<le> score (rs ! 0)"
proof -
  have ev: "search_single_corpus ex2 [] 5 =
      Inr [\<lparr>score = 1 / 2, bank = ''sbi'', document_name = ''T.pdf'', hit_chunk_id = 0,
            raw_chunk = ''beta'', merged_text = ''beta''\<rparr>,
           \<lparr>score = 1 / 4, bank = ''sbi'', document_name = ''S.pdf'', hit_chunk_id = 0,
            raw_chunk = ''alpha'', merged_text = ''alpha''\<rparr>]"
    by (simp add: search_single_corpus_def ex2_index)
       (simp add: ex2_row_def no_hit_def ex2_def merge_neighbors_def neighbor_text_def
          py_index_def score_of_values)
  have nn: "\<forall>h \<in> set ex2_row. 0 \<le> fst h \<and> fst h \<le> FLT_MAX"
    by (simp add: ex2_row_def no_hit_def FLT_MAX_def)
  from search_single_corpus_score [of ex2 "[]" 5 _ ex2_row] ev ex2_index nn
  show ?thesis
    by (simp add: ex2_real_hits list_all_iff)
qed

section \<open>Selecting corpora and retrieving\<close>

lemma sort_desc_Nil [simp]: "sort_desc f [] = []"
  by (simp add: sort_desc_def)

lemma set_sort_desc [simp]: "set (sort_desc f xs) = set xs"
  by (simp add: sort_desc_def)

lemma length_sort_desc [simp]: "length (sort_desc f xs) = length xs"
  by (simp add: sort_desc_def)

lemma py_take_Nil [simp]: "py_take n [] = []"
  by (simp add: py_take_def)


lemma py_take_all: "int (length xs) \<le> n \<Longrightarrow> py_take n xs = xs"
  by (simp add: py_take_def)

lemma fuse_no_bank_Nil: "fuse_no_bank k [] = Inr []"
  by (simp add: fuse_no_bank_def bank_to_results_def)

lemma retrieve_nothing_selected:
  "corpora_to_search corpora b = [] \<Longrightarrow> retrieve corpora enc q b k = Inr []"
  by (simp add: retrieve_def fuse_no_bank_Nil Let_def)

lemma option_list_Nil: "(option_list x = []) = (x = None)"
  by (cases x) (simp_all add: option_list_def)

lemma nothing_selected_iff:
  "(corpora_to_search corpora b = []) =
     (dict_get corpora ''common'' = None \<and>
      (case b of
         None \<Rightarrow> available_banks corpora = []
       | Some h \<Rightarrow> if h = [] then available_banks corpora = []
                  else find_bank_corpus corpora (lower h) = None))"
proof -
  have "(map snd (filter (\<lambda>(name, c). lower name \<noteq> ''common'') corpora) = []) =
        (filter (\<lambda>name. lower name \<noteq> ''common'') (map fst corpora) = [])"
    by (induction corpora) auto
  then show ?thesis
    by (auto simp: corpora_to_search_def truthy_def option_list_Nil available_banks_def Let_def
        split: option.splits)
qed




lemma lower_latin1:
  "lower [CHR ''C'', CHR ''a'', CHR ''f'', CHR 0xC9, CHR 0xD7] =
     [CHR ''c'', CHR ''a'', CHR ''f'', CHR 0xE9, CHR 0xD7]"
  by (simp add: lower_def lower_char_def)


lemma registry_ok_dict_set:
  "registry_ok m \<Longrightarrow> name v = k \<Longrightarrow> registry_ok (dict_set m k v)"
  by (induction m) (auto simp: registry_ok_def)

lemma load_folders_ok:
  "registry_ok corpora \<Longrightarrow> load_folders corpora fs = Inr r \<Longrightarrow> registry_ok r"
proof (induction fs arbitrary: corpora)
  case Nil
  then show ?case by simp
next
  case (Cons f fs)
  show ?case
  proof (cases "is_dir f")
    case False
    with Cons show ?thesis by simp
  next
    case True
    show ?thesis
    proof (cases "index_faiss f")
      case Absent
      with True Cons show ?thesis by simp
    next
      case Malformed
      with True Cons show ?thesis by (cases "metadata_pkl f") simp_all
    next
      case (Stored ix)
      show ?thesis
      proof (cases "metadata_pkl f")
        case Absent
        with True Stored Cons show ?thesis by simp
      next
        case Malformed
        with True Stored Cons show ?thesis by simp
      next
        case (Stored m)
        obtain cs ms where m: "m = (cs, ms)" by (cases m)
        let ?c = "\<lparr>name = folder_name f, index = ix, chunks = cs, metadatas = ms\<rparr>"
        from Cons.prems(1) have "registry_ok (dict_set corpora (folder_name f) ?c)"
          by (rule registry_ok_dict_set) simp
        moreover from Cons.prems(2) True \<open>index_faiss f = Stored ix\<close> Stored m
        have "load_folders (dict_set corpora (folder_name f) ?c) fs = Inr r" by simp
        ultimately show ?thesis by (rule Cons.IH)
      qed
    qed
  qed
qed

lemma load_all_corpora_ok: "load_all_corpora storage = Inr r \<Longrightarrow> registry_ok r"
  using load_folders_ok [of "[]" _ r]
  by (auto simp: load_all_corpora_def registry_ok_def split: option.splits)




lemma search_single_corpus_usable:
  assumes "index c q k = Inr row" "int (length row) = k" "usable_row c row"
  shows "\<exists>found. search_single_corpus c q k = Inr found \<and> int (length found) \<le> k"
proof -
  from collect_hits_usable [OF assms(3)] obtain found where f: "collect_hits c row = Inr found"
    "map raw_chunk found = map (\<lambda>(d, i). chunks c ! nat i) (real_hits row)" by blast
  from f(2) have "length found = length (real_hits row)" by (metis length_map)
  then have "length found \<le> length row" by (simp add: real_hits_def)
  with assms f(1) show ?thesis by (auto simp: search_single_corpus_def)
qed

lemma retrieve_only:
  assumes "h \<noteq> []" "corpora_to_search corpora (Some h) = [cc]"
    and "search_single_corpus cc (enc q) (budget k) = Inr found" "int (length found) \<le> budget k"
  shows "retrieve corpora enc q (Some h) k = Inr (sort_desc score found)"
  using assms by (simp add: retrieve_def truthy_def budget_def Let_def py_take_all)

text \<open>
  Claim C8. When the selection yields no corpus, \<open>retrieve\<close> returns the empty list and
  raises nothing, for every question, hint and budget. The selection is empty exactly
  when there is no corpus named \<open>common\<close> and the hint resolves to no corpus, or, without
  a hint, there is no scoped corpus. An empty storage directory loads as the empty
  registry, on which \<open>retrieve\<close> returns the empty list.
\<close>

theorem retrieve_no_corpora:
  "(corpora_to_search corpora b = [] \<longrightarrow> retrieve corpora enc q b k = Inr []) \<and>
   (corpora_to_search corpora b = []) =
     (dict_get corpora ''common'' = None \<and>
      (case b of
         None \<Rightarrow> available_banks corpora = []
       | Some h \<Rightarrow> if h = [] then available_banks corpora = []
                  else find_bank_corpus corpora (lower h) = None)) \<and>
   load_all_corpora (Some []) = Inr [] \<and>
   retrieve [] enc q b k = Inr []"
proof -
  have "corpora_to_search [] b = []"
    by (simp add: corpora_to_search_def dict_get_def option_list_def find_bank_corpus_def)
  then have "retrieve [] enc q b k = Inr []" by (rule retrieve_nothing_selected)
  moreover have "load_all_corpora (Some []) = Inr []" by (simp add: load_all_corpora_def)
  ultimately show ?thesis
    using retrieve_nothing_selected [of corpora b enc q k] nothing_selected_iff [of corpora b]
    by blast
qed

theorem retrieve_no_corpora_witness:
  "corpora_to_search [(''Common'', two_chunks ''Common'')] (Some ''axis'') = [] \<and>
   retrieve [(''Common'', two_chunks ''Common'')] (\<lambda>s. []) ''fees'' (Some ''axis'') (Some 3) = Inr []"
proof -
  have "corpora_to_search [(''Common'', two_chunks ''Common'')] (Some ''axis'') = []"
    by (simp add: corpora_to_search_def truthy_def dict_get_def option_list_def
        find_bank_corpus_def lower_def lower_char_def)
  with retrieve_no_corpora [of "[(''Common'', two_chunks ''Common'')]" "Some ''axis''"
      "\<lambda>s. []" "''fees''" "Some 3"]
  show ?thesis by blast
qed



text \<open>
  Claim C7. When the hint matches no corpus, the corpora searched are the corpus named
  \<open>common\<close> alone, or none when there is no such corpus. Without it the result is
  empty; with it, and the index answering with a row over the corpus, \<open>retrieve\<close>
  raises nothing and returns the results of that corpus sorted by score.
\<close>

theorem retrieve_unknown_hint:
  "h \<noteq> [] \<and> find_bank_corpus corpora (lower h) = None \<longrightarrow>
     corpora_to_search corpora (Some h) = option_list (dict_get corpora ''common'') \<and>
     (dict_get corpora ''common'' = None \<longrightarrow> retrieve corpora enc q (Some h) k = Inr []) \<and>
     (\<forall>cc row. dict_get corpora ''common'' = Some cc \<and> index cc (enc q) (budget k) = Inr row \<and>
               int (length row) = budget k \<and> usable_row cc row \<longrightarrow>
        (\<exists>found. search_single_corpus cc (enc q) (budget k) = Inr found \<and>
                 retrieve corpora enc q (Some h) k = Inr (sort_desc score found)))"
proof (intro impI)
  assume a: "h \<noteq> [] \<and> find_bank_corpus corpora (lower h) = None"
  then have sel: "corpora_to_search corpora (Some h) = option_list (dict_get corpora ''common'')"
    by (simp add: corpora_to_search_def truthy_def option_list_def)
  have none: "retrieve corpora enc q (Some h) k = Inr []" if "dict_get corpora ''common'' = None"
    using that sel by (simp add: retrieve_nothing_selected option_list_def)
  have some: "\<exists>found. search_single_corpus cc (enc q) (budget k) = Inr found \<and>
                 retrieve corpora enc q (Some h) k = Inr (sort_desc score found)"
    if c: "dict_get corpora ''common'' = Some cc" and row: "index cc (enc q) (budget k) = Inr row"
      "int (length row) = budget k" "usable_row cc row" for cc row
  proof -
    from search_single_corpus_usable [OF row] obtain found where
      f: "search_single_corpus cc (enc q) (budget k) = Inr found" "int (length found) \<le> budget k"
      by blast
    from sel c have "corpora_to_search corpora (Some h) = [cc]" by (simp add: option_list_def)
    with a f show ?thesis using retrieve_only by blast
  qed
  from sel none some
  show "corpora_to_search corpora (Some h) = option_list (dict_get corpora ''common'') \<and>
     (dict_get corpora ''common'' = None \<longrightarrow> retrieve corpora enc q (Some h) k = Inr []) \<and>
     (\<forall>cc row. dict_get corpora ''common'' = Some cc \<and> index cc (enc q) (budget k) = Inr row \<and>
               int (length row) = budget k \<and> usable_row cc row \<longrightarrow>
        (\<exists>found. search_single_corpus cc (enc q) (budget k) = Inr found \<and>
                 retrieve corpora enc q (Some h) k = Inr (sort_desc score found)))"
    by blast
qed

theorem retrieve_unknown_hint_witness:
  "''axis'' \<noteq> [] \<and> find_bank_corpus three_corpora (lower ''axis'') = None \<and>
   dict_get three_corpora ''common'' = Some (two_chunks ''common'') \<and>
   index (two_chunks ''common'') [] (budget None) = Inr ex2_row \<and>
   int (length ex2_row) = budget None \<and> usable_row (two_chunks ''common'') ex2_row \<and>
   corpora_to_search three_corpora (Some ''axis'') = [two_chunks ''common''] \<and>
   (\<exists>found. search_single_corpus (two_chunks ''common'') [] (budget None) = Inr found \<and>
             retrieve three_corpora (\<lambda>s. []) ''fees'' (Some ''axis'') None = Inr (sort_desc score found))"
proof -
  have hyp: "''axis'' \<noteq> [] \<and> find_bank_corpus three_corpora (lower ''axis'') = None"
    by (simp add: find_bank_corpus_def three_corpora_def lower_def lower_char_def)
  have c: "dict_get three_corpora ''common'' = Some (two_chunks ''common'')"
    by (simp add: dict_get_def three_corpora_def)
  have row: "index (two_chunks ''common'') [] (budget None) = Inr ex2_row"
    "int (length ex2_row) = budget None" "usable_row (two_chunks ''common'') ex2_row"
    using ex2_index
    by (simp_all add: two_chunks_def budget_def TOP_K_PER_INDEX_def ex2_row_def usable_row_def
        in_corpus_def no_hit_def ex2_def)
  from retrieve_unknown_hint [of "''axis''" three_corpora "\<lambda>s. []" "''fees''" None] hyp
  have sel: "corpora_to_search three_corpora (Some ''axis'') = option_list (dict_get three_corpora ''common'')"
    and run: "\<forall>cc row. dict_get three_corpora ''common'' = Some cc \<and>
               index cc [] (budget None) = Inr row \<and>
               int (length row) = budget None \<and> usable_row cc row \<longrightarrow>
        (\<exists>found. search_single_corpus cc [] (budget None) = Inr found \<and>
                 retrieve three_corpora (\<lambda>s. []) ''fees'' (Some ''axis'') None = Inr (sort_desc score found))"
    by blast+
  from run c row have "\<exists>found. search_single_corpus (two_chunks ''common'') [] (budget None) = Inr found \<and>
             retrieve three_corpora (\<lambda>s. []) ''fees'' (Some ''axis'') None = Inr (sort_desc score found)"
    by blast
  moreover from sel c have "corpora_to_search three_corpora (Some ''axis'') = [two_chunks ''common'']"
    by (simp add: option_list_def)
  ultimately show ?thesis using hyp c row by blast
qed

text \<open>
  Claim C4, at a folder stored as \<open>Common\<close>. The lookup of the shared corpus is
  \<open>self._corpora.get("common")\<close>, by the exact key, while the scoped corpora are the
  names whose lower case is not \<open>common\<close>. So the corpus is neither shared nor scoped:
  no corpus is selected and the result is empty, where the folder \<open>common\<close> is
  searched. The hint \<open>HDFC\<close> does resolve to the corpus \<open>hdfc\<close>.
\<close>

theorem shared_corpus_lookup_case_sensitive:
  "load_all_corpora (Some capital_storage) = Inr [(''Common'', two_chunks ''Common'')] \<and>
   available_banks [(''Common'', two_chunks ''Common'')] = [] \<and>
   corpora_to_search [(''Common'', two_chunks ''Common'')] None = [] \<and>
   retrieve [(''Common'', two_chunks ''Common'')] (\<lambda>s. []) ''fees'' None None = Inr [] \<and>
   corpora_to_search [(''common'', two_chunks ''common'')] None = [two_chunks ''common''] \<and>
   corpora_to_search [(''Common'', two_chunks ''Common''), (''hdfc'', two_chunks ''hdfc'')] (Some ''HDFC'')
     = [two_chunks ''hdfc''] \<and>
   corpora_to_search [(''common'', two_chunks ''common''), (''hdfc'', two_chunks ''hdfc'')] (Some ''HDFC'')
     = [two_chunks ''hdfc'', two_chunks ''common'']"
proof -
  have sel: "corpora_to_search [(''Common'', two_chunks ''Common'')] None = []"
    by (simp add: corpora_to_search_def truthy_def dict_get_def option_list_def lower_def lower_char_def)
  then have "retrieve [(''Common'', two_chunks ''Common'')] (\<lambda>s. []) ''fees'' None None = Inr []"
    by (rule retrieve_nothing_selected)
  moreover have "load_all_corpora (Some capital_storage) = Inr [(''Common'', two_chunks ''Common'')]"
    by (simp add: load_all_corpora_def capital_storage_def two_chunks_def ex2_def)
  moreover have "available_banks [(''Common'', two_chunks ''Common'')] = []"
    by (simp add: available_banks_def lower_def lower_char_def)
  moreover have "corpora_to_search [(''common'', two_chunks ''common'')] None = [two_chunks ''common'']"
    by (simp add: corpora_to_search_def truthy_def dict_get_def option_list_def lower_def lower_char_def)
  moreover have "corpora_to_search [(''Common'', two_chunks ''Common''), (''hdfc'', two_chunks ''hdfc'')] (Some ''HDFC'')
     = [two_chunks ''hdfc'']"
    by (simp add: corpora_to_search_def truthy_def dict_get_def option_list_def find_bank_corpus_def
        lower_def lower_char_def)
  moreover have "corpora_to_search [(''common'', two_chunks ''common''), (''hdfc'', two_chunks ''hdfc'')] (Some ''HDFC'')
     = [two_chunks ''hdfc'', two_chunks ''common'']"
    by (simp add: corpora_to_search_def truthy_def dict_get_def option_list_def find_bank_corpus_def
        lower_def lower_char_def)
  ultimately show ?thesis using sel by blast
qed

section \<open>Sources for the prompt\<close>

lemma set_first_occurrences: "set (first_occurrences xs) = set xs"
  by (induction xs rule: first_occurrences.induct) auto

lemma distinct_first_occurrences: "distinct (first_occurrences xs)"
  by (induction xs rule: first_occurrences.induct) (auto simp: set_first_occurrences)

lemma set_first_docs: "set (first_docs ds) \<subseteq> set ds"
  by (induction ds rule: first_docs.induct) auto

lemma keys_first_docs: "map doc_key (first_docs ds) = first_occurrences (map doc_key ds)"
  by (induction ds rule: first_docs.induct) (simp_all add: filter_map comp_def)

lemma find_filter_weaker: "(\<And>x. P x \<Longrightarrow> Q x) \<Longrightarrow> find P (filter Q xs) = find P xs"
  by (induction xs) auto

lemma first_docs_find:
  "d \<in> set (first_docs ds) \<Longrightarrow> find (\<lambda>e. doc_key e = doc_key d) ds = Some d"
proof (induction ds rule: first_docs.induct)
  case 1
  then show ?case by simp
next
  case (2 d0 ds)
  show ?case
  proof (cases "d = d0")
    case True
    then show ?thesis by simp
  next
    case False
    with "2.prems" have mem: "d \<in> set (first_docs (filter (\<lambda>e. doc_key e \<noteq> doc_key d0) ds))" by simp
    with set_first_docs have "d \<in> set (filter (\<lambda>e. doc_key e \<noteq> doc_key d0) ds)" by blast
    then have ne: "doc_key d \<noteq> doc_key d0" by simp
    from "2.IH" [OF mem]
    have "find (\<lambda>e. doc_key e = doc_key d) (filter (\<lambda>e. doc_key e \<noteq> doc_key d0) ds) = Some d" .
    moreover have "find (\<lambda>e. doc_key e = doc_key d) (filter (\<lambda>e. doc_key e \<noteq> doc_key d0) ds) =
                   find (\<lambda>e. doc_key e = doc_key d) ds"
      by (rule find_filter_weaker) (use ne in simp)
    ultimately show ?thesis using ne by simp
  qed
qed

lemma add_source_eq:
  "add_source m d = (if doc_key d \<in> fst ` set m then m else m @ [(doc_key d, source_of d)])"
  by (auto simp: add_source_def dict_get_def doc_key_def source_of_def Let_def map_of_eq_None_iff)

lemma foldl_add_source:
  "foldl add_source m docs =
     m @ map (\<lambda>d. (doc_key d, source_of d)) (first_docs (filter (\<lambda>d. doc_key d \<notin> fst ` set m) docs))"
proof (induction docs arbitrary: m)
  case Nil
  then show ?case by simp
next
  case (Cons d docs)
  show ?case
  proof (cases "doc_key d \<in> fst ` set m")
    case True
    with Cons.IH [of m] show ?thesis by (simp add: add_source_eq)
  next
    case False
    have "filter (\<lambda>e. doc_key e \<notin> fst ` set (m @ [(doc_key d, source_of d)])) docs =
          filter (\<lambda>e. doc_key e \<noteq> doc_key d) (filter (\<lambda>e. doc_key e \<notin> fst ` set m) docs)"
      by (auto intro: filter_cong)
    with Cons.IH [of "m @ [(doc_key d, source_of d)]"] False show ?thesis
      by (simp add: add_source_eq)
  qed
qed

lemma build_sources_first_docs: "build_sources_for_llm docs = map source_of (first_docs docs)"
  by (simp add: build_sources_for_llm_def foldl_add_source comp_def)

lemma join_Cons: "ls \<noteq> [] \<Longrightarrow> join sep (l # ls) = l @ sep @ join sep ls"
  by (cases ls) simp_all

lemma splitlines_from_nonempty: "s \<noteq> [] \<Longrightarrow> splitlines_from cur s \<noteq> []"
  by (induction cur s rule: splitlines_from.induct) auto

lemma space_not_linebreak: "\<not> is_linebreak CHR '' ''"
  by (simp add: is_linebreak_def)

lemma linebreak_is_space: "is_linebreak c \<Longrightarrow> is_space c"
  by (auto simp: is_linebreak_def is_space_def)

lemma join_splitlines_chars:
  "c \<in> set (join '' '' (splitlines_from cur s)) \<Longrightarrow>
     c \<in> set cur \<or> c = CHR '' '' \<or> (c \<in> set s \<and> \<not> is_linebreak c)"
proof (induction cur s rule: splitlines_from.induct)
  case (1 cur)
  then show ?case by (auto split: if_splits)
next
  case (2 cur c')
  then show ?case by (auto split: if_splits)
next
  case (3 cur c' d s)
  show ?case
  proof (cases "c' = CHR 0x0D \<and> d = CHR 0x0A")
    case True
    show ?thesis
    proof (cases "s = []")
      case True
      with 3 \<open>c' = CHR 0x0D \<and> d = CHR 0x0A\<close> show ?thesis by simp
    next
      case False
      then have "splitlines_from [] s \<noteq> []" by (rule splitlines_from_nonempty)
      with 3 True show ?thesis by (auto simp: join_Cons)
    qed
  next
    case False
    note nocrlf = this
    show ?thesis
    proof (cases "is_linebreak c'")
      case True
      have "splitlines_from [] (d # s) \<noteq> []" by (rule splitlines_from_nonempty) simp
      with 3 True nocrlf show ?thesis by (auto simp: join_Cons)
    next
      case False
      with 3 nocrlf show ?thesis by auto
    qed
  qed
qed

lemma make_snippet_line: "c \<in> set (make_snippet text) \<Longrightarrow> \<not> is_linebreak c"
proof -
  assume "c \<in> set (make_snippet text)"
  then have "c \<in> set (join '' '' (splitlines_from [] (strip text)))"
    by (auto simp: make_snippet_def splitlines_def dest: in_set_takeD)
  from join_splitlines_chars [OF this] show ?thesis
    using space_not_linebreak by auto
qed

lemma make_snippet_length: "length (make_snippet text) \<le> 400"
  by (simp add: make_snippet_def)

lemma join_splitlines_plain:
  "only_newlines s \<Longrightarrow> s = [] \<or> \<not> is_space (last s) \<Longrightarrow>
     join '' '' (splitlines_from cur s) = cur @ flatten_newlines s"
proof (induction cur s rule: splitlines_from.induct)
  case (1 cur)
  then show ?case by (simp add: flatten_newlines_def)
next
  case (2 cur c)
  from "2.prems"(2) have "\<not> is_space c" by simp
  then have nb: "\<not> is_linebreak c" using linebreak_is_space by blast
  moreover have "is_linebreak (CHR 0x0A)" by (simp add: is_linebreak_def)
  ultimately have "c \<noteq> CHR 0x0A" by blast
  with nb show ?case by (simp add: flatten_newlines_def)
next
  case (3 cur c d s)
  from "3.prems"(1) have c: "is_linebreak c \<longrightarrow> c = CHR 0x0A" and rest: "only_newlines (d # s)"
    by (simp_all add: only_newlines_def)
  from "3.prems"(2) have last: "d # s = [] \<or> \<not> is_space (last (d # s))" by simp
  have "is_linebreak (CHR 0x0D)" by (simp add: is_linebreak_def)
  with c have nocr: "c \<noteq> CHR 0x0D" by auto
  then have nocrlf: "\<not> (c = CHR 0x0D \<and> d = CHR 0x0A)" by simp
  show ?case
  proof (cases "is_linebreak c")
    case True
    with c have cnl: "c = CHR 0x0A" by simp
    have ne: "splitlines_from [] (d # s) \<noteq> []" by (rule splitlines_from_nonempty) simp
    from "3.IH"(2) [OF nocrlf True rest last]
    have "join '' '' (splitlines_from [] (d # s)) = flatten_newlines (d # s)" by simp
    with True nocr ne cnl show ?thesis
      by (simp add: join_Cons flatten_newlines_def)
  next
    case False
    then have "c \<noteq> CHR 0x0A" by (auto simp: is_linebreak_def)
    with "3.IH"(3) [OF nocrlf False rest last] False nocr show ?thesis
      by (simp add: flatten_newlines_def)
  qed
qed

lemma strip_trimmed: "trimmed t \<Longrightarrow> strip t = t"
proof (cases "t = []")
  case True
  then show ?thesis by (simp add: strip_def)
next
  case False
  assume "trimmed t"
  with False have h: "\<not> is_space (hd t)" and l: "\<not> is_space (last t)"
    by (simp_all add: trimmed_def)
  from False h have "dropWhile is_space t = t" by (cases t) simp_all
  moreover from False l have "dropWhile is_space (rev t) = rev t"
    by (cases "rev t") (simp_all add: last_rev [symmetric] hd_rev)
  ultimately show ?thesis by (simp add: strip_def)
qed

lemma make_snippet_plain:
  assumes "trimmed t" "only_newlines t"
  shows "make_snippet t = take 400 (flatten_newlines t)"
proof -
  from assms(1) have "t = [] \<or> \<not> is_space (last t)" by (auto simp: trimmed_def)
  with assms(2) have "join '' '' (splitlines_from [] t) = flatten_newlines t"
    using join_splitlines_plain [of t "[]"] by simp
  with strip_trimmed [OF assms(1)] show ?thesis
    by (simp add: make_snippet_def splitlines_def)
qed

text \<open>
  The snippet is not the merged text with its newlines replaced and cut at 400
  characters: \<open>text.strip()\<close> first removes the whitespace at both ends, so a merged
  text that ends in a newline gives a snippet without the final space.
\<close>

theorem build_sources_strips_whitespace:
  "map snippet (build_sources_for_llm [fee_doc]) \<noteq> [take 400 (flatten_newlines (merged_text fee_doc))]"
  by (simp add: build_sources_first_docs source_of_def fee_doc_def make_snippet_def strip_def
      is_space_def newline_def splitlines_def flatten_newlines_def)

text \<open>
  Claim C9, amended. The projector emits one entry per pair of corpus name and source
  document, in the order of first occurrence, and the entry of a pair is made from the
  first record with that pair. Its snippet is the merged text of that record with the
  whitespace at both ends removed, the lines joined by single spaces and cut at 400
  characters: it has at most 400 characters and no line boundary. For a merged text
  without whitespace at its ends whose only line boundaries are newline characters,
  the snippet is the text with every newline replaced by a space, cut at 400 characters.
\<close>

theorem build_sources_first_occurrence:
  "map source_key (build_sources_for_llm docs) = first_occurrences (map doc_key docs) \<and>
   distinct (map source_key (build_sources_for_llm docs)) \<and>
   set (map source_key (build_sources_for_llm docs)) = set (map doc_key docs) \<and>
   (\<forall>s \<in> set (build_sources_for_llm docs).
      \<exists>d. find (\<lambda>d. doc_key d = source_key s) docs = Some d \<and>
          snippet s = take 400 (join '' '' (splitlines (strip (merged_text d)))) \<and>
          length (snippet s) \<le> 400 \<and>
          (\<forall>c \<in> set (snippet s). \<not> is_linebreak c) \<and>
          (trimmed (merged_text d) \<and> only_newlines (merged_text d) \<longrightarrow>
             snippet s = take 400 (flatten_newlines (merged_text d))))"
proof -
  have sk: "source_key (source_of d) = doc_key d" for d
    by (simp add: source_key_def source_of_def doc_key_def)
  have keys: "map source_key (build_sources_for_llm docs) = first_occurrences (map doc_key docs)"
    by (simp add: build_sources_first_docs sk keys_first_docs [symmetric] comp_def)
  have each: "\<exists>d. find (\<lambda>d. doc_key d = source_key s) docs = Some d \<and>
          snippet s = take 400 (join '' '' (splitlines (strip (merged_text d)))) \<and>
          length (snippet s) \<le> 400 \<and>
          (\<forall>c \<in> set (snippet s). \<not> is_linebreak c) \<and>
          (trimmed (merged_text d) \<and> only_newlines (merged_text d) \<longrightarrow>
             snippet s = take 400 (flatten_newlines (merged_text d)))"
    if "s \<in> set (build_sources_for_llm docs)" for s
  proof -
    from that obtain d where d: "d \<in> set (first_docs docs)" and s: "s = source_of d"
      by (auto simp: build_sources_first_docs)
    from first_docs_find [OF d] s have f: "find (\<lambda>d. doc_key d = source_key s) docs = Some d"
      by (simp add: sk)
    have sn: "snippet s = make_snippet (merged_text d)" using s by (simp add: source_of_def)
    have "snippet s = take 400 (join '' '' (splitlines (strip (merged_text d))))"
      using sn by (simp add: make_snippet_def)
    moreover have "length (snippet s) \<le> 400" using sn make_snippet_length by simp
    moreover have "\<forall>c \<in> set (snippet s). \<not> is_linebreak c" using sn make_snippet_line by simp
    moreover have "trimmed (merged_text d) \<and> only_newlines (merged_text d) \<longrightarrow>
             snippet s = take 400 (flatten_newlines (merged_text d))"
      using sn make_snippet_plain by simp
    ultimately show ?thesis using f by blast
  qed
  from keys have "distinct (map source_key (build_sources_for_llm docs))"
    and "set (map source_key (build_sources_for_llm docs)) = set (map doc_key docs)"
    by (simp_all add: distinct_first_occurrences set_first_occurrences)
  with keys each show ?thesis by blast
qed

theorem build_sources_first_occurrence_witness:
  "map source_key (build_sources_for_llm loan_docs) =
     [(''hdfc'', ''loans.pdf''), (''common'', ''fees.pdf'')] \<and>
   map snippet (build_sources_for_llm loan_docs) = [''Loans are repaid'', ''Fees''] \<and>
   list_all (\<lambda>s. length (snippet s) \<le> 400) (build_sources_for_llm loan_docs)"
proof -
  have ev: "build_sources_for_llm loan_docs =
      [\<lparr>src_bank = ''hdfc'', src_document_name = ''loans.pdf'', snippet = ''Loans are repaid''\<rparr>,
       \<lparr>src_bank = ''common'', src_document_name = ''fees.pdf'', snippet = ''Fees''\<rparr>]"
    by (simp add: build_sources_first_docs loan_docs_def doc_key_def fee_doc_def source_of_def)
       (simp add: make_snippet_def strip_def is_space_def is_linebreak_def newline_def splitlines_def)
  have k: "first_occurrences (map doc_key loan_docs) = [(''hdfc'', ''loans.pdf''), (''common'', ''fees.pdf'')]"
    by (simp add: loan_docs_def doc_key_def fee_doc_def)
  from build_sources_first_occurrence [of loan_docs]
  have "map source_key (build_sources_for_llm loan_docs) = first_occurrences (map doc_key loan_docs)"
    and "\<forall>s \<in> set (build_sources_for_llm loan_docs). length (snippet s) \<le> 400"
    by blast+
  with k ev show ?thesis by (simp add: list_all_iff)
qed

section \<open>Fusion without a hint\<close>

lemma setdefault_append_lookup:
  "map_of (setdefault_append m r) b =
     (if b = bank r then Some ((case map_of m b of None \<Rightarrow> [] | Some g \<Rightarrow> g) @ [r])
      else map_of m b)"
  by (induction m r rule: setdefault_append.induct) auto

lemma setdefault_append_keys:
  "map fst (setdefault_append m r) =
     (if bank r \<in> set (map fst m) then map fst m else map fst m @ [bank r])"
  by (induction m r rule: setdefault_append.induct) auto

lemma bank_to_results_snoc:
  "bank_to_results (rs @ [r]) = setdefault_append (bank_to_results rs) r"
  by (simp add: bank_to_results_def)

lemma bank_to_results_lookup:
  "map_of (bank_to_results rs) b =
     (if b \<in> bank ` set rs then Some (filter (\<lambda>r. bank r = b) rs) else None)"
proof (induction rs rule: rev_induct)
  case Nil
  then show ?case by (simp add: bank_to_results_def)
next
  case (snoc r rs)
  have "filter (\<lambda>x. bank x = bank r) rs = []" if "bank r \<notin> bank ` set rs"
    using that by (simp add: filter_empty_conv) (metis image_eqI)
  with snoc show ?case
    by (auto simp: bank_to_results_snoc setdefault_append_lookup)
qed

lemma bank_to_results_keys:
  "distinct (map fst (bank_to_results rs)) \<and> set (map fst (bank_to_results rs)) = bank ` set rs"
proof (induction rs rule: rev_induct)
  case Nil
  then show ?case by (simp add: bank_to_results_def)
next
  case (snoc r rs)
  then show ?case
    by (auto simp: bank_to_results_snoc setdefault_append_keys)
qed

lemma bank_to_results_group:
  assumes "(b, g) \<in> set (bank_to_results rs)"
  shows "g = filter (\<lambda>r. bank r = b) rs \<and> g \<noteq> [] \<and> b \<in> bank ` set rs"
proof -
  from bank_to_results_keys have "distinct (map fst (bank_to_results rs))" by blast
  with assms have "map_of (bank_to_results rs) b = Some g" by simp
  then have g: "b \<in> bank ` set rs" "g = filter (\<lambda>r. bank r = b) rs"
    by (auto simp: bank_to_results_lookup split: if_splits)
  from g(1) have "filter (\<lambda>r. bank r = b) rs \<noteq> []" by (auto simp: filter_empty_conv)
  with g show ?thesis by simp
qed

lemma py_max_Max: "xs \<noteq> [] \<Longrightarrow> py_max xs = Inr (Max (set xs))"
  by (cases xs) (simp_all add: Max.set_eq_fold [symmetric])

lemma bank_scores_groups:
  "\<forall>(b, g) \<in> set m. g \<noteq> [] \<Longrightarrow>
     bank_scores m = Inr (map (\<lambda>(b, g). (b, Max (score ` set g))) m)"
proof (induction m)
  case Nil
  then show ?case by simp
next
  case (Cons p m)
  obtain b g where p: "p = (b, g)" by (cases p)
  with Cons.prems have g: "g \<noteq> []" and rest: "\<forall>(b, g) \<in> set m. g \<noteq> []" by auto
  from g have "py_max (map score g) = Inr (Max (score ` set g))"
    using py_max_Max [of "map score g"] by simp
  with Cons.IH [OF rest] p show ?case by simp
qed

lemma extend_selected_groups:
  "\<forall>b \<in> set bs. dict_get m b = Some (grp b) \<Longrightarrow>
     extend_selected m k bs = Inr (concat (map (\<lambda>b. py_take k (grp b)) bs))"
  by (induction bs) simp_all

lemma sorted_take_drop:
  "sorted (map f xs) \<Longrightarrow> x \<in> set (take n xs) \<Longrightarrow> y \<in> set (drop n xs) \<Longrightarrow> f x \<le> f y"
proof -
  assume s: "sorted (map f xs)" and x: "x \<in> set (take n xs)" and y: "y \<in> set (drop n xs)"
  have "map f xs = map f (take n xs) @ map f (drop n xs)"
    by (metis append_take_drop_id map_append)
  with s have "sorted (map f (take n xs) @ map f (drop n xs))" by simp
  then have "\<forall>a \<in> set (map f (take n xs)). \<forall>b \<in> set (map f (drop n xs)). a \<le> b"
    by (simp add: sorted_append)
  with x y show ?thesis by auto
qed

lemma ranked_banks_keys:
  "distinct (map fst (ranked_banks S)) \<and> fst ` set (ranked_banks S) = scoped_names S"
proof -
  let ?G = "bank_to_results (filter (\<lambda>r. \<not> is_shared r) S)"
  let ?sc = "map (\<lambda>(b, g). (b, Max (score ` set g))) ?G"
  have fst_sc: "map fst ?sc = map fst ?G" by (simp add: case_prod_beta comp_def)
  have "mset (ranked_banks S) = mset ?sc"
    by (simp add: ranked_banks_def sort_desc_def)
  then have "image_mset fst (mset (ranked_banks S)) = image_mset fst (mset ?sc)" by simp
  then have "mset (map fst (ranked_banks S)) = mset (map fst ?sc)"
    by (simp only: mset_map)
  then have m: "mset (map fst (ranked_banks S)) = mset (map fst ?G)"
    by (simp only: fst_sc)
  from bank_to_results_keys [of "filter (\<lambda>r. \<not> is_shared r) S"]
  have d: "distinct (map fst ?G)" and k: "set (map fst ?G) = bank ` set (filter (\<lambda>r. \<not> is_shared r) S)"
    by blast+
  from d have "distinct (map fst (ranked_banks S))"
    by (simp only: mset_eq_imp_distinct_iff [OF m])
  moreover from mset_eq_setD [OF m] k have "fst ` set (ranked_banks S) = scoped_names S"
    by (simp add: scoped_names_def)
  ultimately show ?thesis by blast
qed

lemma ranked_banks_score:
  assumes "(b, x) \<in> set (ranked_banks S)"
  shows "x = best_score b S"
proof -
  let ?G = "bank_to_results (filter (\<lambda>r. \<not> is_shared r) S)"
  from assms have "(b, x) \<in> set (map (\<lambda>(b, g). (b, Max (score ` set g))) ?G)"
    by (simp add: ranked_banks_def sort_desc_def)
  then obtain p where p: "p \<in> set ?G" "(b, x) = (\<lambda>(b, g). (b, Max (score ` set g))) p"
    by (auto simp only: set_map)
  obtain b0 g where bg: "p = (b0, g)" by (cases p)
  with p have g: "(b, g) \<in> set ?G" and x: "x = Max (score ` set g)" by simp_all
  from bank_to_results_group [OF g]
  have "g = filter (\<lambda>r. bank r = b) (filter (\<lambda>r. \<not> is_shared r) S)" by blast
  then have "g = scoped_records b S" by (simp add: scoped_records_def)
  with x show ?thesis by (simp add: best_score_def)
qed

lemma ranked_banks_sorted: "sorted (map (\<lambda>p. - snd p) (ranked_banks S))"
  by (simp add: ranked_banks_def sort_desc_def)

lemma kept_banks_distinct: "distinct (kept_banks S)"
proof -
  from ranked_banks_keys have "distinct (map fst (ranked_banks S))" by blast
  then have "distinct (take (nat MAX_BANKS_WHEN_NO_BANK_SPECIFIED) (map fst (ranked_banks S)))"
    by (rule distinct_take)
  then show ?thesis by (simp add: kept_banks_def take_map)
qed

lemma kept_banks_subset: "set (kept_banks S) \<subseteq> scoped_names S"
proof -
  have "set (kept_banks S) \<subseteq> fst ` set (ranked_banks S)"
    by (auto simp: kept_banks_def dest: in_set_takeD)
  with ranked_banks_keys show ?thesis by blast
qed

lemma kept_banks_length:
  "length (kept_banks S) = min (nat MAX_BANKS_WHEN_NO_BANK_SPECIFIED) (card (scoped_names S))"
proof -
  from ranked_banks_keys [of S]
  have "card (scoped_names S) = length (map fst (ranked_banks S))"
    by (metis distinct_card set_map)
  then show ?thesis by (simp add: kept_banks_def min.commute)
qed

lemma kept_banks_best:
  assumes b: "b \<in> set (kept_banks S)" and b': "b' \<in> scoped_names S" "b' \<notin> set (kept_banks S)"
  shows "best_score b' S \<le> best_score b S"
proof -
  let ?n = "nat MAX_BANKS_WHEN_NO_BANK_SPECIFIED"
  from b obtain x where x: "(b, x) \<in> set (take ?n (ranked_banks S))"
    by (auto simp: kept_banks_def)
  from b'(1) ranked_banks_keys [of S] obtain y where y: "(b', y) \<in> set (ranked_banks S)"
    by force
  have "(b', y) \<notin> set (take ?n (ranked_banks S))"
    using b'(2) by (force simp: kept_banks_def)
  with y have y': "(b', y) \<in> set (drop ?n (ranked_banks S))"
    by (metis Un_iff append_take_drop_id set_append)
  from sorted_take_drop [OF ranked_banks_sorted x y'] have "y \<le> x" by simp
  moreover from x have "x = best_score b S" by (meson in_set_takeD ranked_banks_score)
  moreover from y have "y = best_score b' S" by (rule ranked_banks_score)
  ultimately show ?thesis by simp
qed

lemma fuse_no_bank_eq:
  "fuse_no_bank k S =
     Inr (sort_desc score (py_take k (shared_records S) @
                           concat (map (\<lambda>b. py_take k (scoped_records b S)) (kept_banks S))))"
proof -
  let ?other = "filter (\<lambda>r. \<not> is_shared r) S"
  let ?G = "bank_to_results ?other"
  have nonempty: "\<forall>(b, g) \<in> set ?G. g \<noteq> []"
    using bank_to_results_group by blast
  have sc: "bank_scores ?G = Inr (map (\<lambda>(b, g). (b, Max (score ` set g))) ?G)"
    using nonempty by (rule bank_scores_groups)
  have sel: "map fst (py_take MAX_BANKS_WHEN_NO_BANK_SPECIFIED
               (sort_desc snd (map (\<lambda>(b, g). (b, Max (score ` set g))) ?G))) = kept_banks S"
    by (simp add: kept_banks_def ranked_banks_def py_take_def MAX_BANKS_WHEN_NO_BANK_SPECIFIED_def)
  have grp: "\<forall>b \<in> set (kept_banks S). dict_get ?G b = Some (scoped_records b S)"
  proof
    fix b assume "b \<in> set (kept_banks S)"
    with kept_banks_subset have "b \<in> scoped_names S" by blast
    then have "b \<in> bank ` set ?other" by (simp add: scoped_names_def)
    then have "map_of ?G b = Some (filter (\<lambda>r. bank r = b) ?other)"
      by (simp add: bank_to_results_lookup)
    then show "dict_get ?G b = Some (scoped_records b S)"
      by (simp add: dict_get_def scoped_records_def)
  qed
  have ext: "extend_selected ?G k (kept_banks S) =
               Inr (concat (map (\<lambda>b. py_take k (scoped_records b S)) (kept_banks S)))"
    using grp by (rule extend_selected_groups)
  have unf: "fuse_no_bank k S =
      bind_err (bank_scores ?G) (\<lambda>scores.
        bind_err (extend_selected ?G k
                    (map fst (py_take MAX_BANKS_WHEN_NO_BANK_SPECIFIED (sort_desc snd scores))))
          (\<lambda>picked. Inr (sort_desc score (py_take k (shared_records S) @ picked))))"
    by (simp add: fuse_no_bank_def Let_def shared_records_def is_shared_def [abs_def])
  show ?thesis
    unfolding unf sc bind_err_Inr sel ext ..
qed

lemma scoped_names_sort: "scoped_names (sort_desc score found) = scoped_names found"
  by (simp add: scoped_names_def)

lemma best_score_sort: "best_score b (sort_desc score found) = best_score b found"
  by (simp add: best_score_def scoped_records_def)

lemma shared_records_sort:
  "0 \<le> k \<Longrightarrow> py_take k (shared_records (sort_desc score found)) = top_k k (shared_records found)"
  by (simp add: py_take_def top_k_def shared_records_def sort_desc_def filter_sort)

lemma scoped_records_sort:
  "0 \<le> k \<Longrightarrow> py_take k (scoped_records b (sort_desc score found)) = top_k k (scoped_records b found)"
  by (simp add: py_take_def top_k_def scoped_records_def sort_desc_def filter_sort)

lemma descending_sort_desc: "descending (sort_desc score rs)"
  by (simp add: descending_def sort_desc_def)

lemma top_k_shared: "r \<in> set (top_k k (shared_records found)) \<Longrightarrow> is_shared r"
  by (auto simp: top_k_def shared_records_def dest: in_set_takeD)

lemma top_k_scoped: "r \<in> set (top_k k (scoped_records b found)) \<Longrightarrow> bank r = b"
  by (auto simp: top_k_def scoped_records_def dest: in_set_takeD)

lemma retrieve_no_bank_eq:
  assumes "\<not> truthy b" "search_all (corpora_to_search corpora b) (enc q) (budget k) = Inr found"
  shows "retrieve corpora enc q b k = fuse_no_bank (budget k) (sort_desc score found)"
  using assms by (simp add: retrieve_def budget_def Let_def)

lemma one_chunk_search: "search_single_corpus (one_chunk n d) q 2 = Inr [hit n (score_of d)]"
  by (simp add: search_single_corpus_def one_chunk_def numeral_eq_Suc)
     (simp add: no_hit_def merge_neighbors_def neighbor_text_def py_index_def hit_def)

lemma eight_selected:
  "corpora_to_search eight_corpora None =
     [one_chunk ''common'' 1, one_chunk ''hdfc'' 7, one_chunk ''sbi'' 0, one_chunk ''icici'' 31,
      one_chunk ''axis'' 1, one_chunk ''kotak'' 15, one_chunk ''yes'' 63, one_chunk ''pnb'' 3]"
  by (simp add: corpora_to_search_def truthy_def dict_get_def option_list_def eight_corpora_def
      lower_def lower_char_def)

lemma eight_search: "search_all (corpora_to_search eight_corpora None) [] (budget (Some 2)) = Inr eight_found"
  by (simp add: eight_selected budget_def one_chunk_search eight_found_def score_of_zero
      score_of_values)

lemma eight_retrieve:
  "retrieve eight_corpora (\<lambda>s. []) ''fees'' None (Some 2) =
     Inr [hit ''sbi'' 1, hit ''common'' (1 / 2), hit ''axis'' (1 / 2), hit ''pnb'' (1 / 4),
          hit ''hdfc'' (1 / 8), hit ''kotak'' (1 / 16)]"
proof -
  have "retrieve eight_corpora (\<lambda>s. []) ''fees'' None (Some 2) =
        fuse_no_bank 2 (sort_desc score eight_found)"
    using retrieve_no_bank_eq [of None eight_corpora "\<lambda>s. []" "''fees''" "Some 2" eight_found]
      eight_search by (simp add: truthy_def budget_def)
  also have "sort_desc score eight_found =
     [hit ''sbi'' 1, hit ''common'' (1 / 2), hit ''axis'' (1 / 2), hit ''pnb'' (1 / 4),
      hit ''hdfc'' (1 / 8), hit ''kotak'' (1 / 16), hit ''icici'' (1 / 32), hit ''yes'' (1 / 64)]"
    by (simp add: sort_desc_def eight_found_def hit_def)
  also have "fuse_no_bank 2 \<dots> =
     Inr [hit ''sbi'' 1, hit ''common'' (1 / 2), hit ''axis'' (1 / 2), hit ''pnb'' (1 / 4),
          hit ''hdfc'' (1 / 8), hit ''kotak'' (1 / 16)]"
    by (simp add: fuse_no_bank_def bank_to_results_def hit_def lower_def lower_char_def
        MAX_BANKS_WHEN_NO_BANK_SPECIFIED_def py_take_def sort_desc_def dict_get_def Let_def)
  finally show ?thesis .
qed

text \<open>
  Claim C1. Without a hint (\<open>bank\<close> is \<open>None\<close> or empty), when the searches of the
  selected corpora succeed with the records \<open>found\<close>, \<open>retrieve\<close> returns a list
  \<open>res\<close> for which there are kept scoped corpora such that: the kept corpora are
  distinct scoped corpora of \<open>found\<close>, as many as there are but at most
  \<open>MAX_BANKS_WHEN_NO_BANK_SPECIFIED\<close>; no scoped corpus that is not kept has a better
  best score than a kept one; \<open>res\<close> consists of the top \<open>k\<close> shared records and the
  top \<open>k\<close> records of every kept corpus; \<open>res\<close> is sorted by descending score; and the
  scoped records of \<open>res\<close> carry at most \<open>MAX_BANKS_WHEN_NO_BANK_SPECIFIED\<close> distinct
  corpus names.
\<close>

theorem retrieve_no_bank:
  "\<not> truthy b \<and> search_all (corpora_to_search corpora b) (enc q) (budget k) = Inr found \<and>
   0 \<le> budget k \<longrightarrow>
     (\<exists>res kept.
        retrieve corpora enc q b k = Inr res \<and>
        distinct kept \<and> set kept \<subseteq> scoped_names found \<and>
        length kept = min (nat MAX_BANKS_WHEN_NO_BANK_SPECIFIED) (card (scoped_names found)) \<and>
        (\<forall>b1 \<in> set kept. \<forall>b2 \<in> scoped_names found - set kept.
            best_score b2 found \<le> best_score b1 found) \<and>
        mset res = mset (top_k (budget k) (shared_records found)) +
                   (\<Sum>b1\<leftarrow>kept. mset (top_k (budget k) (scoped_records b1 found))) \<and>
        descending res \<and>
        card (bank ` {r \<in> set res. \<not> is_shared r}) \<le> nat MAX_BANKS_WHEN_NO_BANK_SPECIFIED)"
proof (intro impI)
  assume a: "\<not> truthy b \<and> search_all (corpora_to_search corpora b) (enc q) (budget k) = Inr found \<and>
   0 \<le> budget k"
  let ?S = "sort_desc score found"
  let ?kept = "kept_banks ?S"
  let ?parts = "top_k (budget k) (shared_records found) @
                concat (map (\<lambda>b1. top_k (budget k) (scoped_records b1 found)) ?kept)"
  let ?res = "sort_desc score ?parts"
  from a have k: "0 \<le> budget k" by simp
  have "retrieve corpora enc q b k = fuse_no_bank (budget k) ?S"
    using a by (simp add: retrieve_no_bank_eq)
  then have run: "retrieve corpora enc q b k = Inr ?res"
    by (simp add: fuse_no_bank_eq shared_records_sort [OF k] scoped_records_sort [OF k])
  have d: "distinct ?kept" by (rule kept_banks_distinct)
  have sub: "set ?kept \<subseteq> scoped_names found"
    using kept_banks_subset [of ?S] by (simp add: scoped_names_sort)
  have len: "length ?kept = min (nat MAX_BANKS_WHEN_NO_BANK_SPECIFIED) (card (scoped_names found))"
    using kept_banks_length [of ?S] by (simp add: scoped_names_sort)
  have best: "\<forall>b1 \<in> set ?kept. \<forall>b2 \<in> scoped_names found - set ?kept.
            best_score b2 found \<le> best_score b1 found"
  proof (intro ballI)
    fix b1 b2 assume b1: "b1 \<in> set ?kept" and b2: "b2 \<in> scoped_names found - set ?kept"
    from b2 have "b2 \<in> scoped_names ?S" "b2 \<notin> set ?kept" by (simp_all add: scoped_names_sort)
    from kept_banks_best [OF b1 this] show "best_score b2 found \<le> best_score b1 found"
      by (simp add: best_score_sort)
  qed
  have ms: "mset ?res = mset (top_k (budget k) (shared_records found)) +
                   (\<Sum>b1\<leftarrow>?kept. mset (top_k (budget k) (scoped_records b1 found)))"
    by (simp add: sort_desc_def mset_concat comp_def)
  have desc: "descending ?res" by (rule descending_sort_desc)
  have names: "bank ` {r \<in> set ?res. \<not> is_shared r} \<subseteq> set ?kept"
  proof
    fix n assume "n \<in> bank ` {r \<in> set ?res. \<not> is_shared r}"
    then obtain r where r: "r \<in> set ?parts" "\<not> is_shared r" "n = bank r" by auto
    from r(1,2) top_k_shared obtain b1 where "b1 \<in> set ?kept"
      "r \<in> set (top_k (budget k) (scoped_records b1 found))" by auto
    with top_k_scoped r(3) show "n \<in> set ?kept" by blast
  qed
  have "card (bank ` {r \<in> set ?res. \<not> is_shared r}) \<le> card (set ?kept)"
    using names by (simp add: card_mono)
  also have "\<dots> \<le> length ?kept" by (rule card_length)
  also have "\<dots> \<le> nat MAX_BANKS_WHEN_NO_BANK_SPECIFIED" using len by simp
  finally have cd: "card (bank ` {r \<in> set ?res. \<not> is_shared r}) \<le> nat MAX_BANKS_WHEN_NO_BANK_SPECIFIED" .
  from run d sub len best ms desc cd
  show "\<exists>res kept.
        retrieve corpora enc q b k = Inr res \<and>
        distinct kept \<and> set kept \<subseteq> scoped_names found \<and>
        length kept = min (nat MAX_BANKS_WHEN_NO_BANK_SPECIFIED) (card (scoped_names found)) \<and>
        (\<forall>b1 \<in> set kept. \<forall>b2 \<in> scoped_names found - set kept.
            best_score b2 found \<le> best_score b1 found) \<and>
        mset res = mset (top_k (budget k) (shared_records found)) +
                   (\<Sum>b1\<leftarrow>kept. mset (top_k (budget k) (scoped_records b1 found))) \<and>
        descending res \<and>
        card (bank ` {r \<in> set res. \<not> is_shared r}) \<le> nat MAX_BANKS_WHEN_NO_BANK_SPECIFIED"
    by blast
qed

theorem retrieve_no_bank_witness:
  "\<not> truthy None \<and>
   search_all (corpora_to_search eight_corpora None) [] (budget (Some 2)) = Inr eight_found \<and>
   0 \<le> budget (Some 2) \<and> length (available_banks eight_corpora) = 7 \<and>
   (\<exists>res. retrieve eight_corpora (\<lambda>s. []) ''fees'' None (Some 2) = Inr res \<and>
          map bank res = [''sbi'', ''common'', ''axis'', ''pnb'', ''hdfc'', ''kotak''] \<and>
          descending res \<and>
          card (bank ` {r \<in> set res. \<not> is_shared r}) \<le> 5)"
proof -
  have hyp: "\<not> truthy None \<and>
      search_all (corpora_to_search eight_corpora None) [] (budget (Some 2)) = Inr eight_found \<and>
      0 \<le> budget (Some 2)"
    using eight_search by (simp add: truthy_def budget_def)
  have seven: "length (available_banks eight_corpora) = 7"
    by (simp add: available_banks_def eight_corpora_def lower_def lower_char_def)
  from retrieve_no_bank [of None eight_corpora "\<lambda>s. []" "''fees''" "Some 2" eight_found] hyp
  obtain res where res: "retrieve eight_corpora (\<lambda>s. []) ''fees'' None (Some 2) = Inr res"
    "descending res"
    "card (bank ` {r \<in> set res. \<not> is_shared r}) \<le> nat MAX_BANKS_WHEN_NO_BANK_SPECIFIED"
    by blast
  from res(1) eight_retrieve
  have "map bank res = [''sbi'', ''common'', ''axis'', ''pnb'', ''hdfc'', ''kotak'']"
    by (auto simp: hit_def)
  with res hyp seven show ?thesis
    by (auto simp: MAX_BANKS_WHEN_NO_BANK_SPECIFIED_def)
qed

end
